theory Spec2Isabelle
  imports Main "HOL-Library.Sublist" "HOL-Library.AList"
begin

section \<open>Python values, exceptions and the external world\<close>

text \<open>
  Text that the pipeline only passes along (paths, templates, prompts, document text) is a
  \<open>string\<close>. A string inside a JSON value is a list of Unicode code points, because
  \<open>json.dumps\<close> inspects code points when it escapes. Floats are not part of the model.
\<close>

type_synonym ustr = "nat list"

abbreviation u :: "string \<Rightarrow> ustr" where
  "u s \<equiv> map of_char s"

datatype json =
    JNull
  | JBool bool
  | JInt int
  | JStr ustr
  | JList "json list"
  | JDict "(ustr \<times> json) list"

text \<open>What \<open>model.ainvoke\<close> can hand back: a message object with a \<open>content\<close>
  attribute, a parsed structured value, or a plain string.\<close>

datatype pyval = AIMessage string | Structured json | Str string

text \<open>
  Exceptions. \<open>External\<close> is anything raised by a collaborator (class name, message):
  the document loader, the file system, the model provider. \<open>Unmodelled\<close> marks a
  template that uses a feature of \<open>str.format\<close> outside the modelled fragment
  (conversions, format specs, attribute and index lookups, non-ASCII field names).
\<close>

datatype py_exception =
    KeyError string
  | IndexError nat
  | ValueError string
  | AttributeError string
  | TypeError string
  | External string string
  | Unmodelled

record document =
  page_content :: string
  metadata :: "(string \<times> string) list"

datatype pyobj =
    is_ChatModel: ChatModel string string
  | is_StructuredOutput: StructuredOutput nat string

datatype event =
    Load string
  | ReadFile string
  | InitChatModel string string
  | WithStructuredOutput nat string
  | Invoke nat string

text \<open>
  The collaborators outside the repository. Each takes the history of external calls made
  so far, so that a collaborator may answer differently from one call to the next.
\<close>

record env =
  ext_lazy_load :: "event list \<Rightarrow> string \<Rightarrow> py_exception + document list"
  ext_open_read :: "event list \<Rightarrow> string \<Rightarrow> py_exception + string"
  ext_init_chat_model :: "event list \<Rightarrow> string \<Rightarrow> string \<Rightarrow> py_exception option"
  ext_with_structured_output :: "event list \<Rightarrow> nat \<Rightarrow> string \<Rightarrow> py_exception option"
  ext_ainvoke :: "event list \<Rightarrow> nat \<Rightarrow> string \<Rightarrow> py_exception + pyval"

text \<open>
  The process state: the two module globals \<open>_model\<close> and \<open>_json_model\<close> (references
  into the object heap, \<open>None\<close> until initialised), the heap of model objects, and the
  trace of external calls.
\<close>

record pstate =
  g_model :: "nat option"
  g_json_model :: "nat option"
  heap :: "pyobj list"
  trace :: "event list"

definition init_state :: pstate where
  "init_state = \<lparr>g_model = None, g_json_model = None, heap = [], trace = []\<rparr>"

definition log_event :: "event \<Rightarrow> pstate \<Rightarrow> pstate" where
  "log_event e s = s\<lparr>trace := trace s @ [e]\<rparr>"

definition alloc :: "pyobj \<Rightarrow> pstate \<Rightarrow> nat \<times> pstate" where
  "alloc obj s = (length (heap s), s\<lparr>heap := heap s @ [obj]\<rparr>)"

definition new_events :: "pstate \<Rightarrow> pstate \<Rightarrow> event list" where
  "new_events s s' = drop (length (trace s)) (trace s')"

section \<open>Document ingestion: \<open>load_pdf_content\<close>\<close>

text \<open>The loop \<open>for doc in loader.lazy_load(): docs.append(doc)\<close>.\<close>

fun append_docs :: "document list \<Rightarrow> document list \<Rightarrow> document list" where
  "append_docs docs [] = docs"
| "append_docs docs (doc # rest) = append_docs (docs @ [doc]) rest"

text \<open>\<open>sep.join(items)\<close>: the first item, then the separator before every later item.\<close>

fun str_join :: "string \<Rightarrow> string list \<Rightarrow> string" where
  "str_join sep [] = []"
| "str_join sep (x # xs) = foldl (\<lambda>acc y. acc @ sep @ y) x xs"

definition load_pdf_content :: "env \<Rightarrow> string \<Rightarrow> pstate \<Rightarrow> (py_exception + string) \<times> pstate" where
  "load_pdf_content w file_path s =
     (let s1 = log_event (Load file_path) s in
      case ext_lazy_load w (trace s) file_path of
        Inl e \<Rightarrow> (Inl e, s1)
      | Inr chunks \<Rightarrow>
          (let docs = append_docs [] chunks in
           if docs \<noteq> [] then
             (let docs_content = map page_content docs in
              (Inr (str_join '' '' docs_content), s1))
           else (Inr ''PDF content unavailable'', s1)))"

definition read_markdown_file :: "env \<Rightarrow> string \<Rightarrow> pstate \<Rightarrow> (py_exception + string) \<times> pstate" where
  "read_markdown_file w file_path s =
     (ext_open_read w (trace s) file_path, log_event (ReadFile file_path) s)"

section \<open>The model client: \<open>get_model\<close> and \<open>call_llm\<close>\<close>

definition init_chat_model ::
  "env \<Rightarrow> string \<Rightarrow> string \<Rightarrow> pstate \<Rightarrow> (py_exception + nat) \<times> pstate" where
  "init_chat_model w name provider s =
     (let s1 = log_event (InitChatModel name provider) s in
      case ext_init_chat_model w (trace s) name provider of
        Some e \<Rightarrow> (Inl e, s1)
      | None \<Rightarrow> (let (r, s2) = alloc (ChatModel name provider) s1 in (Inr r, s2)))"

definition with_structured_output ::
  "env \<Rightarrow> nat \<Rightarrow> string \<Rightarrow> pstate \<Rightarrow> (py_exception + nat) \<times> pstate" where
  "with_structured_output w base method s =
     (let s1 = log_event (WithStructuredOutput base method) s in
      case ext_with_structured_output w (trace s) base method of
        Some e \<Rightarrow> (Inl e, s1)
      | None \<Rightarrow> (let (r, s2) = alloc (StructuredOutput base method) s1 in (Inr r, s2)))"

definition get_model :: "env \<Rightarrow> bool \<Rightarrow> pstate \<Rightarrow> (py_exception + nat) \<times> pstate" where
  "get_model w json_mode s =
     (if json_mode then
        (case g_json_model s of
           None \<Rightarrow>
             (case init_chat_model w ''gpt-4o-mini'' ''openai'' s of
                (Inl e, s1) \<Rightarrow> (Inl e, s1)
              | (Inr base_model, s1) \<Rightarrow>
                  (case with_structured_output w base_model ''json_mode'' s1 of
                     (Inl e, s2) \<Rightarrow> (Inl e, s2)
                   | (Inr r, s2) \<Rightarrow> (Inr r, s2\<lparr>g_json_model := Some r\<rparr>)))
         | Some r \<Rightarrow> (Inr r, s))
      else
        (case g_model s of
           None \<Rightarrow>
             (case init_chat_model w ''gpt-4o-mini'' ''openai'' s of
                (Inl e, s1) \<Rightarrow> (Inl e, s1)
              | (Inr r, s1) \<Rightarrow> (Inr r, s1\<lparr>g_model := Some r\<rparr>))
         | Some r \<Rightarrow> (Inr r, s)))"

definition call_llm :: "env \<Rightarrow> string \<Rightarrow> bool \<Rightarrow> pstate \<Rightarrow> (py_exception + pyval) \<times> pstate" where
  "call_llm w input_data json_mode s =
     (case get_model w json_mode s of
        (Inl e, s1) \<Rightarrow> (Inl e, s1)
      | (Inr model, s1) \<Rightarrow>
          (let s2 = log_event (Invoke model input_data) s1 in
           case ext_ainvoke w (trace s1) model input_data of
             Inl e \<Rightarrow> (Inl e, s2)
           | Inr result \<Rightarrow>
               if json_mode then (Inr result, s2)
               else (case result of
                       AIMessage c \<Rightarrow> (Inr (Str c), s2)
                     | _ \<Rightarrow> (Inl (AttributeError ''content''), s2))))"

section \<open>The prompt formatter: \<open>str.format\<close> with keyword arguments only\<close>

text \<open>
  Python scans the template from left to right. Literal text is copied, \<open>{{\<close> and
  \<open>}}\<close> stand for one brace, and \<open>{name}\<close> is replaced by the keyword argument
  \<open>name\<close>. The first problem met raises: a single brace is a \<open>ValueError\<close>, a
  name that is no keyword argument a \<open>KeyError\<close>, an empty or numeric name an
  \<open>IndexError\<close> (both call sites pass no positional argument). A field that uses
  \<open>!\<close>, \<open>:\<close>, \<open>[\<close>, \<open>.\<close> or a non-ASCII name is outside the model.
  The bound on numeric names is that of a 64-bit build.
\<close>

definition field_stop :: "char \<Rightarrow> bool" where
  "field_stop c \<longleftrightarrow> c \<in> set ''{}[:!''"

definition is_digit :: "char \<Rightarrow> bool" where
  "is_digit c \<longleftrightarrow> (48::nat) \<le> of_char c \<and> (of_char c :: nat) \<le> 57"

definition digits_value :: "string \<Rightarrow> nat" where
  "digits_value ds = foldl (\<lambda>acc c. acc * 10 + (of_char c - 48)) 0 ds"

definition PY_SSIZE_T_MAX :: nat where
  "PY_SSIZE_T_MAX = 9223372036854775807"

definition lookup_field :: "string \<Rightarrow> (string \<times> string) list \<Rightarrow> py_exception + string" where
  "lookup_field name kwargs =
     (if \<exists>c \<in> set name. c = CHR ''.'' \<or> (128::nat) \<le> of_char c then Inl Unmodelled
      else if list_all is_digit name then
        (if PY_SSIZE_T_MAX < digits_value name
         then Inl (ValueError ''Too many decimal digits in format string'')
         else Inl (IndexError (digits_value name)))
      else (case map_of kwargs name of
              None \<Rightarrow> Inl (KeyError name)
            | Some v \<Rightarrow> Inr v))"

definition emit :: "string \<Rightarrow> py_exception + string \<Rightarrow> py_exception + string" where
  "emit v r = (case r of Inl e \<Rightarrow> Inl e | Inr out \<Rightarrow> Inr (v @ out))"

function str_format :: "string \<Rightarrow> (string \<times> string) list \<Rightarrow> py_exception + string" where
  "str_format [] kwargs = Inr []"
| "str_format (c # cs) kwargs =
     (if c = CHR ''}'' then
        (case cs of
           [] \<Rightarrow> Inl (ValueError ''Single } encountered in format string'')
         | d # ds \<Rightarrow>
             if d = CHR ''}'' then emit [c] (str_format ds kwargs)
             else Inl (ValueError ''Single } encountered in format string''))
      else if c = CHR ''{'' then
        (case cs of
           [] \<Rightarrow> Inl (ValueError ''Single { encountered in format string'')
         | d # ds \<Rightarrow>
             if d = CHR ''{'' then emit [c] (str_format ds kwargs)
             else
               (case dropWhile (\<lambda>x. \<not> field_stop x) cs of
                  [] \<Rightarrow> Inl (ValueError ''expected } before end of string'')
                | t # ts \<Rightarrow>
                    if t = CHR ''{'' then Inl (ValueError ''unexpected { in field name'')
                    else if t \<noteq> CHR ''}'' then Inl Unmodelled
                    else
                      (case lookup_field (takeWhile (\<lambda>x. \<not> field_stop x) cs) kwargs of
                         Inl e \<Rightarrow> Inl e
                       | Inr v \<Rightarrow> emit v (str_format ts kwargs))))
      else emit [c] (str_format cs kwargs))"
  by pat_completeness auto
termination
proof (relation "measure (\<lambda>(t, kwargs). length t)")
  fix c :: char and cs and kwargs :: "(string \<times> string) list" and x21a x22a
  assume "dropWhile (\<lambda>x. \<not> field_stop x) cs = x21a # x22a"
  then have "length (x21a # x22a) \<le> length cs"
    by (metis length_dropWhile_le)
  then show "((x22a, kwargs), c # cs, kwargs) \<in> measure (\<lambda>(t, kwargs). length t)"
    by simp
qed auto

text \<open>The names of the replacement fields of a template, in the order the scan meets them.\<close>

function template_fields :: "string \<Rightarrow> string list" where
  "template_fields [] = []"
| "template_fields (c # cs) =
     (if c = CHR ''}'' then
        (case cs of
           [] \<Rightarrow> []
         | d # ds \<Rightarrow> if d = CHR ''}'' then template_fields ds else [])
      else if c = CHR ''{'' then
        (case cs of
           [] \<Rightarrow> []
         | d # ds \<Rightarrow>
             if d = CHR ''{'' then template_fields ds
             else
               (case dropWhile (\<lambda>x. \<not> field_stop x) cs of
                  [] \<Rightarrow> []
                | t # ts \<Rightarrow>
                    if t = CHR ''}''
                    then takeWhile (\<lambda>x. \<not> field_stop x) cs # template_fields ts
                    else []))
      else template_fields cs)"
  by pat_completeness auto
termination
proof (relation "measure length")
  fix c :: char and cs x21a x22a
  assume "dropWhile (\<lambda>x. \<not> field_stop x) cs = x21a # x22a"
  then have "length (x21a # x22a) \<le> length cs"
    by (metis length_dropWhile_le)
  then show "(x22a, c # cs) \<in> measure length"
    by simp
qed auto

definition templating_error :: "py_exception \<Rightarrow> bool" where
  "templating_error e =
     (case e of KeyError n \<Rightarrow> True | IndexError i \<Rightarrow> True | ValueError m \<Rightarrow> True | _ \<Rightarrow> False)"


section \<open>The extraction step: \<open>extract_fields\<close>\<close>

definition extract_fields ::
  "env \<Rightarrow> string \<Rightarrow> string \<Rightarrow> pstate \<Rightarrow> (py_exception + pyval) \<times> pstate" where
  "extract_fields w pdf_path fields_description s =
     (case load_pdf_content w pdf_path s of
        (Inl e, s1) \<Rightarrow> (Inl e, s1)
      | (Inr content, s1) \<Rightarrow>
          (case read_markdown_file w ''prompt.md'' s1 of
             (Inl e, s2) \<Rightarrow> (Inl e, s2)
           | (Inr prompt_template, s2) \<Rightarrow>
               (case str_format prompt_template
                       [(''fields_description'', fields_description), (''content'', content)] of
                  Inl e \<Rightarrow> (Inl e, s2)
                | Inr formatted_prompt \<Rightarrow> call_llm w formatted_prompt True s2)))"

section \<open>Serialisation: \<open>json.dumps(extracted_data, indent=2)\<close>\<close>

text \<open>
  The encoder with its defaults (\<open>ensure_ascii=True\<close>, separators \<open>,\<close> and \<open>: \<close>)
  and an indent of two spaces. The output is ASCII. Values are those of the type
  \<open>json\<close>: floats are left out, and so is the interpreter's limit on the number of
  digits of an integer that is converted to text (4300 by default since CPython 3.11).
\<close>

abbreviation bslash :: char where "bslash \<equiv> CHR 0x5C"
abbreviation dquote :: char where "dquote \<equiv> CHR 0x22"
abbreviation newline :: char where "newline \<equiv> CHR 0x0A"

definition hexdigit :: "nat \<Rightarrow> char" where
  "hexdigit d = (if d < 10 then char_of (48 + d) else char_of (87 + d))"

definition hex4 :: "nat \<Rightarrow> string" where
  "hex4 n = [hexdigit (n div 4096 mod 16), hexdigit (n div 256 mod 16),
             hexdigit (n div 16 mod 16), hexdigit (n mod 16)]"

definition escape_char :: "nat \<Rightarrow> string" where
  "escape_char n =
     (if n = 0x5C then [bslash, bslash]
      else if n = 0x22 then [bslash, dquote]
      else if n = 0x08 then [bslash, CHR ''b'']
      else if n = 0x0C then [bslash, CHR ''f'']
      else if n = 0x0A then [bslash, CHR ''n'']
      else if n = 0x0D then [bslash, CHR ''r'']
      else if n = 0x09 then [bslash, CHR ''t'']
      else if 0x20 \<le> n \<and> n \<le> 0x7E then [char_of n]
      else if n < 0x10000 then bslash # CHR ''u'' # hex4 n
      else
        (let m = n - 0x10000;
             s1 = 0xD800 + m div 1024 mod 1024;
             s2 = 0xDC00 + m mod 1024
         in bslash # CHR ''u'' # hex4 s1 @ bslash # CHR ''u'' # hex4 s2))"

definition encode_basestring_ascii :: "ustr \<Rightarrow> string" where
  "encode_basestring_ascii s = dquote # concat (map escape_char s) @ [dquote]"

function digits_of :: "nat \<Rightarrow> string" where
  "digits_of n =
     (if n < 10 then [char_of (48 + n)]
      else digits_of (n div 10) @ [char_of (48 + n mod 10)])"
  by pat_completeness auto
termination
  by (relation "measure (\<lambda>n. n)") auto

declare digits_of.simps [simp del]

definition int_repr :: "int \<Rightarrow> string" where
  "int_repr i = (if i < 0 then CHR ''-'' # digits_of (nat (- i)) else digits_of (nat i))"

definition newline_indent :: "nat \<Rightarrow> string" where
  "newline_indent level = newline # replicate (2 * level) CHR '' ''"

text \<open>The items of a container: the separator goes before every item but the first.\<close>

fun join_chunks :: "string \<Rightarrow> string list \<Rightarrow> string" where
  "join_chunks sep [] = []"
| "join_chunks sep [x] = x"
| "join_chunks sep (x # y # ys) = x @ sep @ join_chunks sep (y # ys)"

fun iterencode :: "nat \<Rightarrow> json \<Rightarrow> string" where
  "iterencode level JNull = ''null''"
| "iterencode level (JBool b) = (if b then ''true'' else ''false'')"
| "iterencode level (JInt i) = int_repr i"
| "iterencode level (JStr s) = encode_basestring_ascii s"
| "iterencode level (JList xs) =
     (if xs = [] then ''[]''
      else ''['' @ newline_indent (Suc level)
           @ join_chunks (CHR '','' # newline_indent (Suc level))
               (map (iterencode (Suc level)) xs)
           @ newline_indent level @ '']'')"
| "iterencode level (JDict kvs) =
     (if kvs = [] then ''{}''
      else ''{'' @ newline_indent (Suc level)
           @ join_chunks (CHR '','' # newline_indent (Suc level))
               (map (\<lambda>kv. encode_basestring_ascii (fst kv) @ '': ''
                           @ iterencode (Suc level) (snd kv)) kvs)
           @ newline_indent level @ ''}'')"

definition json_dumps :: "json \<Rightarrow> string" where
  "json_dumps obj = iterencode 0 obj"

section \<open>The validation step: \<open>validate_extracted_data\<close>\<close>

definition validation_prompt :: "string \<Rightarrow> string \<Rightarrow> json \<Rightarrow> py_exception + string" where
  "validation_prompt validation_template fields_description extracted_data =
     str_format validation_template
       [(''fields_description'', fields_description),
        (''extracted_data'', json_dumps extracted_data)]"

definition validate_extracted_data ::
  "env \<Rightarrow> string \<Rightarrow> json \<Rightarrow> pstate \<Rightarrow> (py_exception + pyval) \<times> pstate" where
  "validate_extracted_data w fields_description extracted_data s =
     (case read_markdown_file w ''validation_prompt.md'' s of
        (Inl e, s1) \<Rightarrow> (Inl e, s1)
      | (Inr validation_template, s1) \<Rightarrow>
          (case validation_prompt validation_template fields_description extracted_data of
             Inl e \<Rightarrow> (Inl e, s1)
           | Inr formatted_prompt \<Rightarrow> call_llm w formatted_prompt True s1))"


section \<open>The presentation of the results (\<open>app.py\<close>, after both steps have returned)\<close>

text \<open>
  What the page shows, one entry per Streamlit call. The entries keep the values that the
  f-strings interpolate (\<open>str\<close> of a JSON value never raises), not the rendered text.
\<close>

datatype widget =
    Success
  | OverallHeader string json
  | Summary json
  | Rule
  | Subheader
  | FieldHeader ustr string json
  | JsonView json
  | Bullet json
  | NotFound
  | ValueLine json
  | Coverage json
  | Correctness json
  | Issues json
  | RawData json json

text \<open>\<open>obj.get(key, default)\<close>: only a dict has the method.\<close>

definition dict_get :: "json \<Rightarrow> ustr \<Rightarrow> json \<Rightarrow> py_exception + json" where
  "dict_get obj key dflt =
     (case obj of
        JDict d \<Rightarrow> (case map_of d key of None \<Rightarrow> Inr dflt | Some v \<Rightarrow> Inr v)
      | _ \<Rightarrow> Inl (AttributeError ''get''))"

text \<open>\<open>x >= k\<close> for an integer literal \<open>k\<close>: numbers compare (a bool as 0 or 1).\<close>

definition py_ge :: "json \<Rightarrow> int \<Rightarrow> py_exception + bool" where
  "py_ge x k =
     (case x of
        JInt n \<Rightarrow> Inr (k \<le> n)
      | JBool b \<Rightarrow> Inr (k \<le> (if b then 1 else 0))
      | _ \<Rightarrow> Inl (TypeError ''>= not supported''))"

text \<open>Truth value testing.\<close>

definition py_truthy :: "json \<Rightarrow> bool" where
  "py_truthy x =
     (case x of
        JNull \<Rightarrow> False
      | JBool b \<Rightarrow> b
      | JInt n \<Rightarrow> n \<noteq> 0
      | JStr s \<Rightarrow> s \<noteq> []
      | JList xs \<Rightarrow> xs \<noteq> []
      | JDict d \<Rightarrow> d \<noteq> [])"

definition score_color :: "json \<Rightarrow> py_exception + string" where
  "score_color score =
     (case py_ge score 8 of
        Inl e \<Rightarrow> Inl e
      | Inr ge8 \<Rightarrow>
          if ge8 then Inr ''green''
          else (case py_ge score 6 of
                  Inl e \<Rightarrow> Inl e
                | Inr ge6 \<Rightarrow> if ge6 then Inr ''orange'' else Inr ''red''))"

definition show_item :: "json \<Rightarrow> widget" where
  "show_item item = (case item of JDict d \<Rightarrow> JsonView item | _ \<Rightarrow> Bullet item)"

definition show_value :: "json \<Rightarrow> widget list" where
  "show_value v =
     (case v of
        JList items \<Rightarrow> if items \<noteq> [] then map show_item items else [NotFound]
      | _ \<Rightarrow> if py_truthy v then [ValueLine v] else [NotFound])"

definition show_detail ::
  "json \<Rightarrow> ustr \<Rightarrow> (json \<Rightarrow> widget) \<Rightarrow> widget list \<Rightarrow> (py_exception + unit) \<times> widget list" where
  "show_detail evaluation key mk out =
     (case dict_get evaluation key JNull of
        Inl e \<Rightarrow> (Inl e, out)
      | Inr v \<Rightarrow> if py_truthy v then (Inr (), out @ [mk v]) else (Inr (), out))"

definition show_details :: "json \<Rightarrow> widget list \<Rightarrow> (py_exception + unit) \<times> widget list" where
  "show_details evaluation out =
     (if py_truthy evaluation then
        (case show_detail evaluation (u ''coverage'') Coverage out of
           (Inl e, out1) \<Rightarrow> (Inl e, out1)
         | (Inr _, out1) \<Rightarrow>
             (case show_detail evaluation (u ''correctness'') Correctness out1 of
                (Inl e, out2) \<Rightarrow> (Inl e, out2)
              | (Inr _, out2) \<Rightarrow> show_detail evaluation (u ''issues'') Issues out2))
      else (Inr (), out))"

text \<open>The body of the loop over \<open>extracted_data.items()\<close>.\<close>

definition render_field ::
  "json \<Rightarrow> ustr \<times> json \<Rightarrow> widget list \<Rightarrow> (py_exception + unit) \<times> widget list" where
  "render_field field_evaluations item out =
     (case dict_get field_evaluations (fst item) (JDict []) of
        Inl e \<Rightarrow> (Inl e, out)
      | Inr evaluation \<Rightarrow>
          (case dict_get evaluation (u ''score'') (JInt 0) of
             Inl e \<Rightarrow> (Inl e, out)
           | Inr score \<Rightarrow>
               (case score_color score of
                  Inl e \<Rightarrow> (Inl e, out)
                | Inr field_color \<Rightarrow>
                    (case show_details evaluation
                            (out @ FieldHeader (fst item) field_color score # show_value (snd item)) of
                       (Inl e, out1) \<Rightarrow> (Inl e, out1)
                     | (Inr _, out1) \<Rightarrow> (Inr (), out1 @ [Rule])))))"

fun render_fields ::
  "json \<Rightarrow> (ustr \<times> json) list \<Rightarrow> widget list \<Rightarrow> (py_exception + unit) \<times> widget list" where
  "render_fields field_evaluations [] out = (Inr (), out)"
| "render_fields field_evaluations (item # items) out =
     (case render_field field_evaluations item out of
        (Inl e, out1) \<Rightarrow> (Inl e, out1)
      | (Inr _, out1) \<Rightarrow> render_fields field_evaluations items out1)"

definition render_results :: "json \<Rightarrow> json \<Rightarrow> (py_exception + unit) \<times> widget list" where
  "render_results extracted_data validation_result =
     (let out0 = [Success] in
      case dict_get validation_result (u ''overall_score'') (JInt 0) of
        Inl e \<Rightarrow> (Inl e, out0)
      | Inr overall_score \<Rightarrow>
          (case score_color overall_score of
             Inl e \<Rightarrow> (Inl e, out0)
           | Inr color \<Rightarrow>
               (let out1 = out0 @ [OverallHeader color overall_score];
                    out2 = (case validation_result of
                              JDict d \<Rightarrow> (case map_of d (u ''summary'') of
                                             None \<Rightarrow> out1
                                           | Some sm \<Rightarrow> out1 @ [Summary sm])
                            | _ \<Rightarrow> out1);
                    out3 = out2 @ [Rule, Subheader]
                in case dict_get validation_result (u ''field_evaluations'') (JDict []) of
                     Inl e \<Rightarrow> (Inl e, out3)
                   | Inr field_evaluations \<Rightarrow>
                       (case extracted_data of
                          JDict items \<Rightarrow>
                            (case render_fields field_evaluations items out3 of
                               (Inl e, out4) \<Rightarrow> (Inl e, out4)
                             | (Inr _, out4) \<Rightarrow>
                                 (Inr (), out4 @ [RawData extracted_data validation_result]))
                        | _ \<Rightarrow> (Inl (AttributeError ''items''), out3)))))"

text \<open>The second end-to-end scenario of the specification.\<close>

definition jane_extraction :: json where
  "jane_extraction =
     JDict [(u ''name'', JStr (u ''Jane Doe'')),
            (u ''email'', JStr (u ''jane@example.com'')),
            (u ''skills'', JList [JStr (u ''Python'')])]"

definition jane_validation :: json where
  "jane_validation =
     JDict [(u ''overall_score'', JInt 9),
            (u ''summary'', JStr (u ''Strong match'')),
            (u ''field_evaluations'',
               JDict [(u ''name'',
                         JDict [(u ''score'', JInt 10),
                                (u ''coverage'', JStr (u ''full'')),
                                (u ''correctness'', JStr (u ''exact'')),
                                (u ''issues'', JStr [])])])]"


section \<open>Notions used to state the properties\<close>

text \<open>The space-joined concatenation of a sequence of chunks, in order.\<close>

fun space_joined :: "string list \<Rightarrow> string" where
  "space_joined [] = []"
| "space_joined [x] = x"
| "space_joined (x # y # ys) = x @ '' '' @ space_joined (y # ys)"


text \<open>A world whose collaborators answer the same way on every call.\<close>

definition demo_env ::
  "(py_exception + document list) \<Rightarrow> (py_exception + string) \<Rightarrow> py_exception option
     \<Rightarrow> (py_exception + pyval) \<Rightarrow> env" where
  "demo_env loaded template init answer =
     \<lparr>ext_lazy_load = (\<lambda>h p. loaded),
      ext_open_read = (\<lambda>h p. template),
      ext_init_chat_model = (\<lambda>h n p. init),
      ext_with_structured_output = (\<lambda>h b m. None),
      ext_ainvoke = (\<lambda>h m p. answer)\<rparr>"

text \<open>The two halves of a replacement field scan: the name, and what follows it.\<close>

abbreviation field_name_of :: "string \<Rightarrow> string" where
  "field_name_of cs \<equiv> takeWhile (\<lambda>x. \<not> field_stop x) cs"

abbreviation after_field_name :: "string \<Rightarrow> string" where
  "after_field_name cs \<equiv> dropWhile (\<lambda>x. \<not> field_stop x) cs"

text \<open>A template with the two placeholders of the extraction step.\<close>

definition fmt_demo_template :: string where
  "fmt_demo_template = ''Fields: {fields_description} Text: {content}''"

text \<open>The files opened by a run, read off its trace.\<close>

fun files_read :: "event list \<Rightarrow> string list" where
  "files_read [] = []"
| "files_read (ReadFile f # es) = f # files_read es"
| "files_read (e # es) = files_read es"

text \<open>The scenario of the specification: one chunk of text, a stub model with a fixed answer.\<close>

definition jane_chunks :: "document list" where
  "jane_chunks =
     [\<lparr>page_content = ''Jane Doe, jane@example.com, Python developer'', metadata = []\<rparr>]"

definition jane_answer :: pyval where
  "jane_answer =
     Structured (JDict [(u ''name'', JStr (u ''Jane Doe'')),
                        (u ''email'', JStr (u ''jane@example.com'')),
                        (u ''skills'', JList [JStr (u ''Python'')])])"

definition jane_env :: env where
  "jane_env = demo_env (Inr jane_chunks) (Inr fmt_demo_template) None (Inr jane_answer)"

definition jane_prompt :: string where
  "jane_prompt =
     ''Fields: Name, Email, Skills Text: Jane Doe, jane@example.com, Python developer''"

text \<open>Worlds in which one collaborator fails.\<close>

definition file_not_found :: py_exception where
  "file_not_found = External ''FileNotFoundError'' ''No such file or directory''"

definition rate_limited :: py_exception where
  "rate_limited = External ''RateLimitError'' ''Too many requests''"

definition no_api_key :: py_exception where
  "no_api_key = External ''OpenAIError'' ''The api_key client option must be set''"


subsection \<open>Parsing JSON text back: \<open>json.loads\<close>\<close>

text \<open>
  The program never parses its own prompt; the round trip is stated against the decoder
  of the standard library, the inverse that \<open>json.dumps\<close> is written for. It is
  modelled on texts whose characters are below 256: the
  same grammar, whitespace and escapes, strict about control characters in strings. A
  result \<open>None\<close> is a \<open>JSONDecodeError\<close>, or a text that holds a float (\<open>1.5\<close>,
  \<open>1e3\<close>, \<open>NaN\<close>, \<open>Infinity\<close>), which the model leaves out. The functions that call
  each other take fuel; \<open>json_loads\<close> supplies more than any text can use.
\<close>

definition is_ws :: "char \<Rightarrow> bool" where
  "is_ws c \<longleftrightarrow> c = CHR '' '' \<or> c = CHR 0x09 \<or> c = newline \<or> c = CHR 0x0D"

definition skip_ws :: "string \<Rightarrow> string" where
  "skip_ws s = dropWhile is_ws s"

definition hexval :: "char \<Rightarrow> nat option" where
  "hexval c =
     (let n = (of_char c :: nat) in
      if 48 \<le> n \<and> n \<le> 57 then Some (n - 48)
      else if 97 \<le> n \<and> n \<le> 102 then Some (n - 87)
      else if 65 \<le> n \<and> n \<le> 70 then Some (n - 55)
      else None)"

definition hex4_value :: "char \<Rightarrow> char \<Rightarrow> char \<Rightarrow> char \<Rightarrow> nat option" where
  "hex4_value a b c d =
     (case (hexval a, hexval b, hexval c, hexval d) of
        (Some w, Some x, Some y, Some z) \<Rightarrow> Some (((w * 16 + x) * 16 + y) * 16 + z)
      | _ \<Rightarrow> None)"

definition decode_uXXXX :: "string \<Rightarrow> nat option" where
  "decode_uXXXX s = (case s of a # b # c # d # rest \<Rightarrow> hex4_value a b c d | _ \<Rightarrow> None)"

definition is_high_surrogate :: "nat \<Rightarrow> bool" where
  "is_high_surrogate n \<longleftrightarrow> 0xD800 \<le> n \<and> n \<le> 0xDBFF"

definition is_low_surrogate :: "nat \<Rightarrow> bool" where
  "is_low_surrogate n \<longleftrightarrow> 0xDC00 \<le> n \<and> n \<le> 0xDFFF"

definition join_surrogates :: "nat \<Rightarrow> nat \<Rightarrow> nat" where
  "join_surrogates hi lo = 0x10000 + ((hi - 0xD800) * 1024 + (lo - 0xDC00))"

text \<open>The table \<open>BACKSLASH\<close> of the decoder.\<close>

definition unescape :: "char \<Rightarrow> nat option" where
  "unescape c =
     (if c = dquote then Some 0x22
      else if c = bslash then Some 0x5C
      else if c = CHR ''/'' then Some 0x2F
      else if c = CHR ''b'' then Some 0x08
      else if c = CHR ''f'' then Some 0x0C
      else if c = CHR ''n'' then Some 0x0A
      else if c = CHR ''r'' then Some 0x0D
      else if c = CHR ''t'' then Some 0x09
      else None)"

definition cons_char :: "nat \<Rightarrow> (ustr \<times> string) option \<Rightarrow> (ustr \<times> string) option" where
  "cons_char x r = (case r of None \<Rightarrow> None | Some (s, rest) \<Rightarrow> Some (x # s, rest))"

text \<open>\<open>scanstring\<close>, from the character after the opening quote.\<close>

function scanstring :: "string \<Rightarrow> (ustr \<times> string) option" where
  "scanstring [] = None"
| "scanstring (c # cs) =
     (if c = dquote then Some ([], cs)
      else if c = bslash then
        (case cs of
           [] \<Rightarrow> None
         | esc # r \<Rightarrow>
             if esc = CHR ''u'' then
               (case decode_uXXXX r of
                  None \<Rightarrow> None
                | Some uni \<Rightarrow>
                    if is_high_surrogate uni \<and> take 2 (drop 4 r) = [bslash, CHR ''u''] then
                      (case decode_uXXXX (drop 6 r) of
                         None \<Rightarrow> None
                       | Some uni2 \<Rightarrow>
                           if is_low_surrogate uni2
                           then cons_char (join_surrogates uni uni2) (scanstring (drop 10 r))
                           else cons_char uni (scanstring (drop 4 r)))
                    else cons_char uni (scanstring (drop 4 r)))
             else
               (case unescape esc of
                  None \<Rightarrow> None
                | Some ch \<Rightarrow> cons_char ch (scanstring r)))
      else if (of_char c :: nat) < 0x20 then None
      else cons_char (of_char c) (scanstring cs))"
  by pat_completeness auto
termination
  by (relation "measure length") auto

text \<open>
  A number: an optional minus, then \<open>0\<close> or a digit sequence without leading zero. A
  fraction or an exponent after it makes a float.
\<close>

definition float_tail :: "string \<Rightarrow> bool" where
  "float_tail s =
     (case s of
        c # d # ds \<Rightarrow>
          (c = CHR ''.'' \<and> is_digit d)
          \<or> ((c = CHR ''e'' \<or> c = CHR ''E'')
              \<and> (is_digit d
                  \<or> ((d = CHR ''+'' \<or> d = CHR ''-'') \<and> (case ds of [] \<Rightarrow> False | x # xs \<Rightarrow> is_digit x))))
      | _ \<Rightarrow> False)"

definition parse_digits :: "bool \<Rightarrow> string \<Rightarrow> (json \<times> string) option" where
  "parse_digits negative s =
     (case s of
        [] \<Rightarrow> None
      | d # ds \<Rightarrow>
          if \<not> is_digit d then None
          else
            (let digits = (if d = CHR ''0'' then [d] else d # takeWhile is_digit ds);
                 rest = (if d = CHR ''0'' then ds else dropWhile is_digit ds)
             in if float_tail rest then None
                else Some (JInt (if negative then - int (digits_value digits)
                                 else int (digits_value digits)), rest)))"

definition parse_number :: "string \<Rightarrow> (json \<times> string) option" where
  "parse_number s =
     (case s of
        [] \<Rightarrow> None
      | c # cs \<Rightarrow> if c = CHR ''-'' then parse_digits True cs else parse_digits False s)"

text \<open>\<open>dict(pairs)\<close>: a later pair with the same key replaces the value in place.\<close>

definition py_dict :: "(ustr \<times> json) list \<Rightarrow> (ustr \<times> json) list" where
  "py_dict pairs = foldl (\<lambda>d kv. AList.update (fst kv) (snd kv) d) [] pairs"

fun parse_value :: "nat \<Rightarrow> string \<Rightarrow> (json \<times> string) option"
  and parse_elements :: "nat \<Rightarrow> string \<Rightarrow> (json list \<times> string) option"
  and parse_members :: "nat \<Rightarrow> string \<Rightarrow> ((ustr \<times> json) list \<times> string) option"
where
  "parse_value 0 s = None"
| "parse_value (Suc n) s =
     (case s of
        [] \<Rightarrow> None
      | c # cs \<Rightarrow>
          if c = dquote then
            (case scanstring cs of
               None \<Rightarrow> None
             | Some (str, rest) \<Rightarrow> Some (JStr str, rest))
          else if c = CHR ''{'' then
            (case skip_ws cs of
               [] \<Rightarrow> None
             | d # ds \<Rightarrow>
                 if d = CHR ''}'' then Some (JDict [], ds)
                 else if d = dquote then
                   (case parse_members n ds of
                      None \<Rightarrow> None
                    | Some (pairs, rest) \<Rightarrow> Some (JDict (py_dict pairs), rest))
                 else None)
          else if c = CHR ''['' then
            (case skip_ws cs of
               [] \<Rightarrow> None
             | d # ds \<Rightarrow>
                 if d = CHR '']'' then Some (JList [], ds)
                 else
                   (case parse_elements n (d # ds) of
                      None \<Rightarrow> None
                    | Some (values, rest) \<Rightarrow> Some (JList values, rest)))
          else if take 4 s = ''null'' then Some (JNull, drop 4 s)
          else if take 4 s = ''true'' then Some (JBool True, drop 4 s)
          else if take 5 s = ''false'' then Some (JBool False, drop 5 s)
          else parse_number s)"
| "parse_elements 0 s = None"
| "parse_elements (Suc n) s =
     (case parse_value n s of
        None \<Rightarrow> None
      | Some (v, rest) \<Rightarrow>
          (case skip_ws rest of
             [] \<Rightarrow> None
           | d # ds \<Rightarrow>
               if d = CHR '']'' then Some ([v], ds)
               else if d = CHR '','' then
                 (case parse_elements n (skip_ws ds) of
                    None \<Rightarrow> None
                  | Some (vs, rest') \<Rightarrow> Some (v # vs, rest'))
               else None))"
| "parse_members 0 s = None"
| "parse_members (Suc n) s =
     (case scanstring s of
        None \<Rightarrow> None
      | Some (key, rest) \<Rightarrow>
          (case skip_ws rest of
             [] \<Rightarrow> None
           | c # cs \<Rightarrow>
               if c \<noteq> CHR '':'' then None
               else
                 (case parse_value n (skip_ws cs) of
                    None \<Rightarrow> None
                  | Some (v, rest1) \<Rightarrow>
                      (case skip_ws rest1 of
                         [] \<Rightarrow> None
                       | d # ds \<Rightarrow>
                           if d = CHR ''}'' then Some ([(key, v)], ds)
                           else if d = CHR '','' then
                             (case skip_ws ds of
                                [] \<Rightarrow> None
                              | q # qs \<Rightarrow>
                                  if q \<noteq> dquote then None
                                  else
                                    (case parse_members n qs of
                                       None \<Rightarrow> None
                                     | Some (pairs, rest2) \<Rightarrow> Some ((key, v) # pairs, rest2)))
                           else None))))"

definition json_loads :: "string \<Rightarrow> json option" where
  "json_loads s =
     (case parse_value (Suc (length s)) (skip_ws s) of
        None \<Rightarrow> None
      | Some (obj, rest) \<Rightarrow> if skip_ws rest = [] then Some obj else None)"

text \<open>
  The values a JSON parser can hand over: every code point is a code point, no string
  holds a high surrogate directly followed by a low one (the decoder joins such a pair
  into one character), and the keys of a mapping are distinct.
\<close>

fun no_surrogate_pair :: "ustr \<Rightarrow> bool" where
  "no_surrogate_pair [] = True"
| "no_surrogate_pair [x] = True"
| "no_surrogate_pair (x # y # ys) =
     (\<not> (is_high_surrogate x \<and> is_low_surrogate y) \<and> no_surrogate_pair (y # ys))"

definition wf_ustr :: "ustr \<Rightarrow> bool" where
  "wf_ustr s \<longleftrightarrow> list_all (\<lambda>c. c < 0x110000) s \<and> no_surrogate_pair s"

fun wf_json :: "json \<Rightarrow> bool" where
  "wf_json (JStr s) = wf_ustr s"
| "wf_json (JList xs) = list_all wf_json xs"
| "wf_json (JDict kvs) =
     (distinct (map fst kvs) \<and> list_all (\<lambda>kv. wf_ustr (fst kv) \<and> wf_json (snd kv)) kvs)"
| "wf_json v = True"

text \<open>Fuel that is enough to parse the text of a value back.\<close>

fun fuel_needed :: "json \<Rightarrow> nat" where
  "fuel_needed (JList xs) = Suc (Suc (sum_list (map fuel_needed xs)))"
| "fuel_needed (JDict kvs) = Suc (Suc (sum_list (map (\<lambda>kv. fuel_needed (snd kv)) kvs)))"
| "fuel_needed v = 1"


text \<open>What follows a value in the encoder's output: nothing, a comma or a line break.\<close>

definition value_end :: "string \<Rightarrow> bool" where
  "value_end rest \<longleftrightarrow> (case rest of [] \<Rightarrow> True | c # cs \<Rightarrow> c = CHR '','' \<or> c = newline)"

text \<open>What may follow the escape of a lone high surrogate.\<close>

definition lone_ok :: "string \<Rightarrow> bool" where
  "lone_ok t \<longleftrightarrow>
     take 2 t \<noteq> [bslash, CHR ''u'']
     \<or> (\<exists>uni2. decode_uXXXX (drop 2 t) = Some uni2 \<and> \<not> is_low_surrogate uni2)"

text \<open>A validation template with its two placeholders, and a world that serves it.\<close>

definition validation_demo_template :: string where
  "validation_demo_template = ''Fields: {fields_description} Data: {extracted_data}''"

definition validation_env :: env where
  "validation_env =
     demo_env (Inr jane_chunks) (Inr validation_demo_template) None (Inr jane_answer)"


section \<open>Properties of document ingestion\<close>

lemma append_docs_append: "append_docs docs chunks = docs @ chunks"
  by (induction chunks arbitrary: docs) simp_all

lemma foldl_join_shift:
  "foldl (\<lambda>acc y. acc @ sep @ y) (a @ b) xs = a @ foldl (\<lambda>acc y. acc @ sep @ y) b xs"
  by (induction xs arbitrary: b) simp_all

lemma str_join_space_joined: "str_join '' '' xs = space_joined xs"
proof (induction xs rule: space_joined.induct)
  case 1
  show ?case by simp
next
  case (2 x)
  show ?case by simp
next
  case (3 x y ys)
  have "str_join '' '' (x # y # ys) = foldl (\<lambda>acc y. acc @ '' '' @ y) (x @ '' '' @ y) ys"
    by simp
  also have "\<dots> = x @ '' '' @ foldl (\<lambda>acc y. acc @ '' '' @ y) y ys"
    using foldl_join_shift [of "'' ''" "x @ '' ''" y ys] by simp
  also have "\<dots> = x @ '' '' @ space_joined (y # ys)"
    using 3 by simp
  finally show ?case by simp
qed

text \<open>
  C5. When the loader yields no chunk at all, \<open>load_pdf_content\<close> returns the fixed string
  \<open>PDF content unavailable\<close>: not the empty string, and not an error.
\<close>

theorem load_pdf_content_sentinel:
  assumes "ext_lazy_load w (trace s) file_path = Inr []"
  shows "fst (load_pdf_content w file_path s) = Inr ''PDF content unavailable''
         \<and> fst (load_pdf_content w file_path s) \<noteq> Inr []
         \<and> (\<forall>e. fst (load_pdf_content w file_path s) \<noteq> Inl e)"
  using assms by (simp add: load_pdf_content_def)

theorem load_pdf_content_sentinel_witness:
  "ext_lazy_load (demo_env (Inr []) (Inr ''t'') None (Inr (Str ''r''))) (trace init_state) ''cv.pdf''
     = Inr []
   \<and> fst (load_pdf_content (demo_env (Inr []) (Inr ''t'') None (Inr (Str ''r''))) ''cv.pdf''
            init_state)
     = Inr ''PDF content unavailable''"
  using load_pdf_content_sentinel
    [of "demo_env (Inr []) (Inr ''t'') None (Inr (Str ''r''))" init_state "''cv.pdf''"]
  by (simp add: demo_env_def)

text \<open>
  C7. When the loader yields at least one chunk, the text returned by \<open>load_pdf_content\<close>
  is the chunks' contents joined by single spaces, in the order the loader produced them.
\<close>

theorem load_pdf_content_joins_chunks:
  assumes "ext_lazy_load w (trace s) file_path = Inr chunks" and "chunks \<noteq> []"
  shows "fst (load_pdf_content w file_path s) = Inr (space_joined (map page_content chunks))"
  using assms by (simp add: load_pdf_content_def append_docs_append str_join_space_joined)

theorem load_pdf_content_joins_chunks_witness:
  "ext_lazy_load
     (demo_env (Inr [\<lparr>page_content = ''Jane Doe,'', metadata = []\<rparr>,
                     \<lparr>page_content = ''jane@example.com'', metadata = []\<rparr>])
        (Inr ''t'') None (Inr (Str ''r'')))
     (trace init_state) ''cv.pdf''
     = Inr [\<lparr>page_content = ''Jane Doe,'', metadata = []\<rparr>,
            \<lparr>page_content = ''jane@example.com'', metadata = []\<rparr>]
   \<and> [\<lparr>page_content = ''Jane Doe,'', metadata = []\<rparr>,
       \<lparr>page_content = ''jane@example.com'', metadata = []\<rparr>] \<noteq> []
   \<and> fst (load_pdf_content
            (demo_env (Inr [\<lparr>page_content = ''Jane Doe,'', metadata = []\<rparr>,
                            \<lparr>page_content = ''jane@example.com'', metadata = []\<rparr>])
               (Inr ''t'') None (Inr (Str ''r'')))
            ''cv.pdf'' init_state)
     = Inr ''Jane Doe, jane@example.com''"
  using load_pdf_content_joins_chunks
    [of "demo_env (Inr [\<lparr>page_content = ''Jane Doe,'', metadata = []\<rparr>,
                        \<lparr>page_content = ''jane@example.com'', metadata = []\<rparr>])
           (Inr ''t'') None (Inr (Str ''r''))"
        init_state "''cv.pdf''"
        "[\<lparr>page_content = ''Jane Doe,'', metadata = []\<rparr>,
          \<lparr>page_content = ''jane@example.com'', metadata = []\<rparr>]"]
  by (simp add: demo_env_def)

section \<open>Properties of the model client\<close>

lemma get_model_cached:
  "g_json_model s = Some r \<Longrightarrow> get_model w True s = (Inr r, s)"
  "g_model s = Some r \<Longrightarrow> get_model w False s = (Inr r, s)"
  by (simp_all add: get_model_def)

lemma get_model_init_json:
  "g_json_model s = None \<Longrightarrow> get_model w True s =
     (case ext_init_chat_model w (trace s) ''gpt-4o-mini'' ''openai'' of
        Some e \<Rightarrow> (Inl e, s\<lparr>trace := trace s @ [InitChatModel ''gpt-4o-mini'' ''openai'']\<rparr>)
      | None \<Rightarrow>
          (case ext_with_structured_output w
                  (trace s @ [InitChatModel ''gpt-4o-mini'' ''openai''])
                  (length (heap s)) ''json_mode'' of
             Some e \<Rightarrow>
               (Inl e, s\<lparr>heap := heap s @ [ChatModel ''gpt-4o-mini'' ''openai''],
                          trace := trace s @ [InitChatModel ''gpt-4o-mini'' ''openai'',
                                              WithStructuredOutput (length (heap s)) ''json_mode'']\<rparr>)
           | None \<Rightarrow>
               (Inr (Suc (length (heap s))),
                s\<lparr>g_json_model := Some (Suc (length (heap s))),
                   heap := heap s @ [ChatModel ''gpt-4o-mini'' ''openai'',
                                     StructuredOutput (length (heap s)) ''json_mode''],
                   trace := trace s @ [InitChatModel ''gpt-4o-mini'' ''openai'',
                                       WithStructuredOutput (length (heap s)) ''json_mode'']\<rparr>)))"
  by (simp add: get_model_def init_chat_model_def with_structured_output_def alloc_def
        log_event_def split: option.splits)

lemma get_model_init_text:
  "g_model s = None \<Longrightarrow> get_model w False s =
     (case ext_init_chat_model w (trace s) ''gpt-4o-mini'' ''openai'' of
        Some e \<Rightarrow> (Inl e, s\<lparr>trace := trace s @ [InitChatModel ''gpt-4o-mini'' ''openai'']\<rparr>)
      | None \<Rightarrow>
          (Inr (length (heap s)),
           s\<lparr>g_model := Some (length (heap s)),
              heap := heap s @ [ChatModel ''gpt-4o-mini'' ''openai''],
              trace := trace s @ [InitChatModel ''gpt-4o-mini'' ''openai'']\<rparr>))"
  by (simp add: get_model_def init_chat_model_def alloc_def log_event_def split: option.splits)

lemmas get_model_eqs = get_model_cached get_model_init_json get_model_init_text


lemma get_model_other_slot:
  "g_model (snd (get_model w True s)) = g_model s"
  "g_json_model (snd (get_model w False s)) = g_json_model s"
  by (cases "g_json_model s"; cases "g_model s"; simp add: get_model_eqs split: option.splits)+

lemma get_model_heap_grows:
  "take (length (heap s)) (heap (snd (get_model w b s))) = heap s"
  by (cases b; cases "g_json_model s"; cases "g_model s")
     (simp_all add: get_model_eqs split: option.splits)








text \<open>
  C10. A call of \<open>get_model\<close> in structured mode leaves the free-text slot as it was, a
  call in free-text mode leaves the structured slot as it was, and neither changes an
  object that was already on the heap.
\<close>

theorem get_model_frame:
  "g_model (snd (get_model w True s)) = g_model s
   \<and> g_json_model (snd (get_model w False s)) = g_json_model s
   \<and> take (length (heap s)) (heap (snd (get_model w json_mode s))) = heap s"
  using get_model_other_slot [of w s] get_model_heap_grows [of s w json_mode] by simp


section \<open>Properties of the prompt formatter\<close>

lemma str_format_close_close:
  "str_format (CHR ''}'' # CHR ''}'' # ds) kwargs = emit ''}'' (str_format ds kwargs)"
  by simp

lemma str_format_open_open:
  "str_format (CHR ''{'' # CHR ''{'' # ds) kwargs = emit ''{'' (str_format ds kwargs)"
  by simp

lemma str_format_literal:
  "c \<noteq> CHR ''}'' \<Longrightarrow> c \<noteq> CHR ''{'' \<Longrightarrow> str_format (c # cs) kwargs = emit [c] (str_format cs kwargs)"
  by simp

lemma str_format_field_general:
  "d \<noteq> CHR ''{'' \<Longrightarrow>
   str_format (CHR ''{'' # d # ds) kwargs =
     (case after_field_name (d # ds) of
        [] \<Rightarrow> Inl (ValueError ''expected } before end of string'')
      | t # ts \<Rightarrow>
          if t = CHR ''{'' then Inl (ValueError ''unexpected { in field name'')
          else if t \<noteq> CHR ''}'' then Inl Unmodelled
          else
            (case lookup_field (field_name_of (d # ds)) kwargs of
               Inl e \<Rightarrow> Inl e
             | Inr v \<Rightarrow> emit v (str_format ts kwargs)))"
  by (simp del: dropWhile.simps takeWhile.simps)

lemma str_format_field:
  assumes "d \<noteq> CHR ''{''" and "after_field_name (d # ds) = CHR ''}'' # ts"
  shows "str_format (CHR ''{'' # d # ds) kwargs =
     (case lookup_field (field_name_of (d # ds)) kwargs of
        Inl e \<Rightarrow> Inl e
      | Inr v \<Rightarrow> emit v (str_format ts kwargs))"
  unfolding str_format_field_general [OF assms(1)] assms(2) by simp

lemma str_format_field_bad:
  assumes "d \<noteq> CHR ''{''" and "after_field_name (d # ds) = t # ts" and "t \<noteq> CHR ''}''"
  shows "str_format (CHR ''{'' # d # ds) kwargs =
     (if t = CHR ''{'' then Inl (ValueError ''unexpected { in field name'') else Inl Unmodelled)"
  unfolding str_format_field_general [OF assms(1)] assms(2) using assms(3) by simp

lemma str_format_field_open:
  assumes "d \<noteq> CHR ''{''" and "after_field_name (d # ds) = []"
  shows "str_format (CHR ''{'' # d # ds) kwargs = Inl (ValueError ''expected } before end of string'')"
  unfolding str_format_field_general [OF assms(1)] assms(2) by simp

lemma str_format_single:
  "str_format ''}'' kwargs = Inl (ValueError ''Single } encountered in format string'')"
  "d \<noteq> CHR ''}'' \<Longrightarrow> str_format (CHR ''}'' # d # ds) kwargs = Inl (ValueError ''Single } encountered in format string'')"
  "str_format ''{'' kwargs = Inl (ValueError ''Single { encountered in format string'')"
  by simp_all

lemma template_fields_skip:
  "template_fields (CHR ''}'' # CHR ''}'' # ds) = template_fields ds"
  "template_fields (CHR ''{'' # CHR ''{'' # ds) = template_fields ds"
  "c \<noteq> CHR ''}'' \<Longrightarrow> c \<noteq> CHR ''{'' \<Longrightarrow> template_fields (c # cs) = template_fields cs"
  by simp_all

lemma template_fields_field_general:
  "d \<noteq> CHR ''{'' \<Longrightarrow>
   template_fields (CHR ''{'' # d # ds) =
     (case after_field_name (d # ds) of
        [] \<Rightarrow> []
      | t # ts \<Rightarrow>
          if t = CHR ''}'' then field_name_of (d # ds) # template_fields ts else [])"
  by (simp del: dropWhile.simps takeWhile.simps)

lemma template_fields_field:
  assumes "d \<noteq> CHR ''{''" and "after_field_name (d # ds) = CHR ''}'' # ts"
  shows "template_fields (CHR ''{'' # d # ds) = field_name_of (d # ds) # template_fields ts"
  unfolding template_fields_field_general [OF assms(1)] assms(2) by simp

lemma template_fields_none:
  "template_fields ''}'' = []"
  "d \<noteq> CHR ''}'' \<Longrightarrow> template_fields (CHR ''}'' # d # ds) = []"
  "template_fields ''{'' = []"
  by simp_all

lemma template_fields_field_open:
  assumes "d \<noteq> CHR ''{''" and "after_field_name (d # ds) = []"
  shows "template_fields (CHR ''{'' # d # ds) = []"
  unfolding template_fields_field_general [OF assms(1)] assms(2) by simp

lemma template_fields_field_bad:
  assumes "d \<noteq> CHR ''{''" and "after_field_name (d # ds) = t # ts" and "t \<noteq> CHR ''}''"
  shows "template_fields (CHR ''{'' # d # ds) = []"
  unfolding template_fields_field_general [OF assms(1)] assms(2) using assms(3) by simp

lemma emit_Inr: "emit v r = Inr out \<longleftrightarrow> (\<exists>out'. r = Inr out' \<and> out = v @ out')"
  by (cases r) (auto simp: emit_def)

lemma emit_Inl: "emit v r = Inl e \<longleftrightarrow> r = Inl e"
  by (cases r) (auto simp: emit_def)

lemma lookup_field_Inr: "lookup_field name kwargs = Inr v \<Longrightarrow> map_of kwargs name = Some v"
  unfolding lookup_field_def
  by (simp split: if_split_asm option.split_asm)

lemma templating_error_simps:
  "templating_error (KeyError n)" "templating_error (IndexError i)" "templating_error (ValueError m)"
  "\<not> templating_error Unmodelled"
  by (simp_all add: templating_error_def)

lemma lookup_field_Inl:
  "lookup_field name kwargs = Inl e \<Longrightarrow> e = Unmodelled \<or> templating_error e"
  unfolding lookup_field_def
  by (clarsimp simp: templating_error_simps split: if_split_asm option.split_asm)


lemma sublist_append_left: "sublist v out \<Longrightarrow> sublist v (w @ out)"
  by (auto simp: sublist_def) (metis append.assoc)

lemma emit_keeps_sublist:
  assumes "emit w r = Inr out"
    and "\<And>out'. r = Inr out' \<Longrightarrow> \<exists>v. map_of kwargs n = Some v \<and> sublist v out'"
  shows "\<exists>v. map_of kwargs n = Some v \<and> sublist v out"
proof -
  obtain out' where r: "r = Inr out'" and out: "out = w @ out'"
    using assms(1) by (auto simp: emit_Inr)
  obtain v where "map_of kwargs n = Some v" "sublist v out'"
    using assms(2) [OF r] by blast
  then show ?thesis
    using out sublist_append_left by blast
qed


declare str_format.simps [simp del] template_fields.simps [simp del]

lemma after_field_name_shorter:
  "after_field_name cs = t # ts \<Longrightarrow> length ts < length cs"
  using length_dropWhile_le [of "\<lambda>x. \<not> field_stop x" cs] by simp

lemma str_format_fields:
  "str_format t kwargs = Inr out \<Longrightarrow> n \<in> set (template_fields t)
     \<Longrightarrow> \<exists>v. map_of kwargs n = Some v \<and> sublist v out"
proof (induction "length t" arbitrary: t out rule: less_induct)
  case less
  note IH = less.hyps and res = less.prems(1) and n = less.prems(2)
  show ?case
  proof (cases t)
    case Nil
    with n show ?thesis by (simp add: template_fields.simps)
  next
    case (Cons c cs)
    consider (close) "c = CHR ''}''" | (opn) "c = CHR ''{''" | (lit) "c \<noteq> CHR ''}''" "c \<noteq> CHR ''{''"
      by blast
    then show ?thesis
    proof cases
      case lit
      have e: "emit [c] (str_format cs kwargs) = Inr out"
        using res Cons lit by (simp add: str_format_literal)
      have n': "n \<in> set (template_fields cs)"
        using n Cons lit by (simp add: template_fields_skip)
      have short: "length cs < length t"
        using Cons by simp
      show ?thesis
        by (rule emit_keeps_sublist [OF e]) (rule IH [OF short _ n'])
    next
      case close
      show ?thesis
      proof (cases cs)
        case Nil
        with n Cons close show ?thesis by (simp add: template_fields_none)
      next
        case inner: (Cons d ds)
        show ?thesis
        proof (cases "d = CHR ''}''")
          case False
          with n Cons close inner show ?thesis by (simp add: template_fields_none)
        next
          case True
          have e: "emit ''}'' (str_format ds kwargs) = Inr out"
            using res Cons close inner True by (simp add: str_format_close_close)
          have n': "n \<in> set (template_fields ds)"
            using n Cons close inner True by (simp add: template_fields_skip)
          have short: "length ds < length t"
            using Cons inner by simp
          show ?thesis
            by (rule emit_keeps_sublist [OF e]) (rule IH [OF short _ n'])
        qed
      qed
    next
      case opn
      show ?thesis
      proof (cases cs)
        case Nil
        with n Cons opn show ?thesis by (simp add: template_fields_none)
      next
        case inner: (Cons d ds)
        show ?thesis
        proof (cases "d = CHR ''{''")
          case True
          have e: "emit ''{'' (str_format ds kwargs) = Inr out"
            using res Cons opn inner True by (simp add: str_format_open_open)
          have n': "n \<in> set (template_fields ds)"
            using n Cons opn inner True by (simp add: template_fields_skip)
          have short: "length ds < length t"
            using Cons inner by simp
          show ?thesis
            by (rule emit_keeps_sublist [OF e]) (rule IH [OF short _ n'])
        next
          case dfield: False
          have t_eq: "t = CHR ''{'' # d # ds"
            using Cons opn inner by simp
          show ?thesis
          proof (cases "after_field_name (d # ds)")
            case Nil
            show ?thesis
              using n unfolding t_eq template_fields_field_open [OF dfield Nil] by simp
          next
            case rest: (Cons x ts)
            show ?thesis
            proof (cases "x = CHR ''}''")
              case False
              show ?thesis
                using n unfolding t_eq template_fields_field_bad [OF dfield rest False] by simp
            next
              case True
              have rest': "after_field_name (d # ds) = CHR ''}'' # ts"
                using rest True by simp
              have res': "(case lookup_field (field_name_of (d # ds)) kwargs of
                             Inl e \<Rightarrow> Inl e
                           | Inr v \<Rightarrow> emit v (str_format ts kwargs)) = Inr out"
                using res unfolding t_eq str_format_field [OF dfield rest'] .
              then obtain v where v: "lookup_field (field_name_of (d # ds)) kwargs = Inr v"
                by (cases "lookup_field (field_name_of (d # ds)) kwargs") simp_all
              have e: "emit v (str_format ts kwargs) = Inr out"
                using res' v by simp
              then obtain out' where out: "out = v @ out'"
                by (auto simp: emit_Inr)
              have n': "n = field_name_of (d # ds) \<or> n \<in> set (template_fields ts)"
                using n unfolding t_eq template_fields_field [OF dfield rest'] by simp
              then show ?thesis
              proof
                assume "n = field_name_of (d # ds)"
                then show ?thesis
                  using lookup_field_Inr [OF v] out by auto
              next
                assume n'': "n \<in> set (template_fields ts)"
                have short: "length ts < length t"
                  using after_field_name_shorter [OF rest'] t_eq by simp
                show ?thesis
                  by (rule emit_keeps_sublist [OF e]) (rule IH [OF short _ n''])
              qed
            qed
          qed
        qed
      qed
    qed
  qed
qed

lemma str_format_errors:
  "str_format t kwargs = Inl e \<Longrightarrow> e = Unmodelled \<or> templating_error e"
proof (induction "length t" arbitrary: t rule: less_induct)
  case less
  note IH = less.hyps and res = less.prems
  show ?case
  proof (cases t)
    case Nil
    with res show ?thesis by (simp add: str_format.simps)
  next
    case (Cons c cs)
    consider (close) "c = CHR ''}''" | (opn) "c = CHR ''{''" | (lit) "c \<noteq> CHR ''}''" "c \<noteq> CHR ''{''"
      by blast
    then show ?thesis
    proof cases
      case lit
      have e: "str_format cs kwargs = Inl e"
        using res Cons lit by (simp add: str_format_literal emit_Inl)
      have short: "length cs < length t"
        using Cons by simp
      show ?thesis
        by (rule IH [OF short e])
    next
      case close
      show ?thesis
      proof (cases cs)
        case Nil
        with res Cons close show ?thesis
          by (auto simp: str_format_single templating_error_simps)
      next
        case inner: (Cons d ds)
        show ?thesis
        proof (cases "d = CHR ''}''")
          case False
          with res Cons close inner show ?thesis
            by (auto simp: str_format_single templating_error_simps)
        next
          case True
          have e: "str_format ds kwargs = Inl e"
            using res Cons close inner True by (simp add: str_format_close_close emit_Inl)
          have short: "length ds < length t"
            using Cons inner by simp
          show ?thesis
            by (rule IH [OF short e])
        qed
      qed
    next
      case opn
      show ?thesis
      proof (cases cs)
        case Nil
        with res Cons opn show ?thesis
          by (auto simp: str_format_single templating_error_simps)
      next
        case inner: (Cons d ds)
        show ?thesis
        proof (cases "d = CHR ''{''")
          case True
          have e: "str_format ds kwargs = Inl e"
            using res Cons opn inner True by (simp add: str_format_open_open emit_Inl)
          have short: "length ds < length t"
            using Cons inner by simp
          show ?thesis
            by (rule IH [OF short e])
        next
          case dfield: False
          have t_eq: "t = CHR ''{'' # d # ds"
            using Cons opn inner by simp
          show ?thesis
          proof (cases "after_field_name (d # ds)")
            case Nil
            show ?thesis
              using res unfolding t_eq str_format_field_open [OF dfield Nil]
              by (auto simp: templating_error_simps)
          next
            case rest: (Cons x ts)
            show ?thesis
            proof (cases "x = CHR ''}''")
              case False
              show ?thesis
                using res unfolding t_eq str_format_field_bad [OF dfield rest False]
                by (auto simp: templating_error_simps split: if_split_asm)
            next
              case True
              have rest': "after_field_name (d # ds) = CHR ''}'' # ts"
                using rest True by simp
              have res': "(case lookup_field (field_name_of (d # ds)) kwargs of
                             Inl e \<Rightarrow> Inl e
                           | Inr v \<Rightarrow> emit v (str_format ts kwargs)) = Inl e"
                using res unfolding t_eq str_format_field [OF dfield rest'] .
              show ?thesis
              proof (cases "lookup_field (field_name_of (d # ds)) kwargs")
                case (Inl e')
                with res' have "e' = e" by simp
                with Inl show ?thesis
                  using lookup_field_Inl by blast
              next
                case (Inr v)
                with res' have e: "str_format ts kwargs = Inl e"
                  by (simp add: emit_Inl)
                have short: "length ts < length t"
                  using after_field_name_shorter [OF rest'] t_eq by simp
                show ?thesis
                  by (rule IH [OF short e])
              qed
            qed
          qed
        qed
      qed
    qed
  qed
qed

lemma demo_fields: "template_fields fmt_demo_template = [''fields_description'', ''content'']"
  unfolding fmt_demo_template_def
  by (simp add: template_fields.simps field_stop_def)

lemma demo_format:
  "str_format fmt_demo_template [(''fields_description'', ''Name''), (''content'', ''Jane Doe'')]
     = Inr ''Fields: Name Text: Jane Doe''"
  unfolding fmt_demo_template_def
  by (simp add: str_format.simps field_stop_def lookup_field_def is_digit_def emit_def)

lemma demo_format_missing:
  "str_format fmt_demo_template [(''fields_description'', ''Name'')] = Inl (KeyError ''content'')"
  unfolding fmt_demo_template_def
  by (simp add: str_format.simps field_stop_def lookup_field_def is_digit_def emit_def)

lemma validation_demo_fields:
  "template_fields validation_demo_template = [''fields_description'', ''extracted_data'']"
  unfolding validation_demo_template_def
  by (simp add: template_fields.simps field_stop_def)

lemma validation_demo_format:
  "validation_prompt validation_demo_template ''Name, Email, Skills'' d
     = Inr (''Fields: Name, Email, Skills Data: '' @ json_dumps d)"
  unfolding validation_demo_template_def validation_prompt_def
  by (simp add: str_format.simps field_stop_def lookup_field_def is_digit_def emit_def)


text \<open>
  C4. Whenever formatting succeeds, the value of every placeholder the template contains
  stands verbatim (as a contiguous piece) in the output: for the extraction template both
  the field description and the document text, for the validation template the field
  description and the serialised extraction. Whenever a placeholder of the template has no
  value among the keyword arguments, formatting raises a templating error (a
  \<open>KeyError\<close>, or the \<open>ValueError\<close> or \<open>IndexError\<close> of an earlier defect of
  the template). The template is a parameter; templates outside the modelled fragment of
  \<open>str.format\<close> are excluded.
\<close>

theorem prompt_formatter_substitutes:
  "(str_format t [(''fields_description'', fields_description), (''content'', content)] = Inr out
      \<longrightarrow> ''fields_description'' \<in> set (template_fields t)
      \<longrightarrow> ''content'' \<in> set (template_fields t)
      \<longrightarrow> sublist fields_description out \<and> sublist content out)
   \<and> (validation_prompt t fields_description extracted_data = Inr out
      \<longrightarrow> ''fields_description'' \<in> set (template_fields t)
      \<longrightarrow> ''extracted_data'' \<in> set (template_fields t)
      \<longrightarrow> sublist fields_description out \<and> sublist (json_dumps extracted_data) out)
   \<and> (str_format t kwargs = Inr out \<longrightarrow> n \<in> set (template_fields t)
      \<longrightarrow> (\<exists>v. map_of kwargs n = Some v \<and> sublist v out))
   \<and> (n \<in> set (template_fields t) \<longrightarrow> map_of kwargs n = None
      \<longrightarrow> str_format t kwargs \<noteq> Inl Unmodelled
      \<longrightarrow> (\<exists>e. str_format t kwargs = Inl e \<and> templating_error e))"
proof (intro conjI impI)
  assume fmt: "str_format t [(''fields_description'', fields_description), (''content'', content)]
                 = Inr out"
    and f1: "''fields_description'' \<in> set (template_fields t)"
    and f2: "''content'' \<in> set (template_fields t)"
  show "sublist fields_description out"
    using str_format_fields [OF fmt f1] by simp
  show "sublist content out"
    using str_format_fields [OF fmt f2] by simp
next
  assume fmt: "validation_prompt t fields_description extracted_data = Inr out"
    and f1: "''fields_description'' \<in> set (template_fields t)"
    and f2: "''extracted_data'' \<in> set (template_fields t)"
  show "sublist fields_description out"
    using str_format_fields [OF fmt [unfolded validation_prompt_def] f1] by simp
  show "sublist (json_dumps extracted_data) out"
    using str_format_fields [OF fmt [unfolded validation_prompt_def] f2] by simp
next
  assume "str_format t kwargs = Inr out" and "n \<in> set (template_fields t)"
  then show "\<exists>v. map_of kwargs n = Some v \<and> sublist v out"
    by (rule str_format_fields)
next
  assume n: "n \<in> set (template_fields t)" and none: "map_of kwargs n = None"
    and modelled: "str_format t kwargs \<noteq> Inl Unmodelled"
  show "\<exists>e. str_format t kwargs = Inl e \<and> templating_error e"
  proof (cases "str_format t kwargs")
    case (Inr out')
    from str_format_fields [OF Inr n] none show ?thesis by simp
  next
    case (Inl e)
    with str_format_errors [OF Inl] modelled show ?thesis by simp
  qed
qed

theorem prompt_formatter_substitutes_witness:
  "str_format fmt_demo_template [(''fields_description'', ''Name''), (''content'', ''Jane Doe'')]
     = Inr ''Fields: Name Text: Jane Doe''
   \<and> ''fields_description'' \<in> set (template_fields fmt_demo_template)
   \<and> ''content'' \<in> set (template_fields fmt_demo_template)
   \<and> sublist ''Name'' ''Fields: Name Text: Jane Doe''
   \<and> sublist ''Jane Doe'' ''Fields: Name Text: Jane Doe''
   \<and> validation_prompt validation_demo_template ''Name, Email, Skills'' jane_extraction
       = Inr (''Fields: Name, Email, Skills Data: '' @ json_dumps jane_extraction)
   \<and> ''fields_description'' \<in> set (template_fields validation_demo_template)
   \<and> ''extracted_data'' \<in> set (template_fields validation_demo_template)
   \<and> sublist ''Name, Email, Skills''
        (''Fields: Name, Email, Skills Data: '' @ json_dumps jane_extraction)
   \<and> sublist (json_dumps jane_extraction)
        (''Fields: Name, Email, Skills Data: '' @ json_dumps jane_extraction)
   \<and> map_of [(''fields_description'', ''Name'')] ''content'' = None
   \<and> str_format fmt_demo_template [(''fields_description'', ''Name'')] \<noteq> Inl Unmodelled
   \<and> (\<exists>e. str_format fmt_demo_template [(''fields_description'', ''Name'')] = Inl e
          \<and> templating_error e)"
proof -
  have f1: "''fields_description'' \<in> set (template_fields fmt_demo_template)"
    and f2: "''content'' \<in> set (template_fields fmt_demo_template)"
    by (simp_all add: demo_fields)
  have none: "map_of [(''fields_description'', ''Name'')] ''content'' = None"
    by simp
  have modelled: "str_format fmt_demo_template [(''fields_description'', ''Name'')] \<noteq> Inl Unmodelled"
    by (simp add: demo_format_missing)
  note inst = prompt_formatter_substitutes
    [of fmt_demo_template "''Name''" "''Jane Doe''" "''Fields: Name Text: Jane Doe''" JNull
        "[(''fields_description'', ''Name'')]" "''content''"]
  have both: "sublist ''Name'' ''Fields: Name Text: Jane Doe''
              \<and> sublist ''Jane Doe'' ''Fields: Name Text: Jane Doe''"
    using inst demo_format f1 f2 by blast
  have raises: "\<exists>e. str_format fmt_demo_template [(''fields_description'', ''Name'')] = Inl e
                  \<and> templating_error e"
    using inst f2 none modelled by blast
  have v1: "''fields_description'' \<in> set (template_fields validation_demo_template)"
    and v2: "''extracted_data'' \<in> set (template_fields validation_demo_template)"
    by (simp_all add: validation_demo_fields)
  note vfmt = validation_demo_format [of jane_extraction]
  note vinst = prompt_formatter_substitutes
    [where t = validation_demo_template and fields_description = "''Name, Email, Skills''"
       and extracted_data = jane_extraction
       and out = "''Fields: Name, Email, Skills Data: '' @ json_dumps jane_extraction"]
  have vboth: "sublist ''Name, Email, Skills''
                 (''Fields: Name, Email, Skills Data: '' @ json_dumps jane_extraction)
               \<and> sublist (json_dumps jane_extraction)
                 (''Fields: Name, Email, Skills Data: '' @ json_dumps jane_extraction)"
    using vinst vfmt v1 v2 by blast
  show ?thesis
    using demo_format f1 f2 both vfmt v1 v2 vboth none modelled raises by blast
qed


section \<open>Properties of the two pipeline steps\<close>

lemma load_pdf_content_state: "snd (load_pdf_content w p s) = log_event (Load p) s"
  by (cases "ext_lazy_load w (trace s) p") (simp_all add: load_pdf_content_def Let_def)

lemma load_pdf_content_fails:
  "ext_lazy_load w (trace s) p = Inl e \<Longrightarrow> load_pdf_content w p s = (Inl e, log_event (Load p) s)"
  by (simp add: load_pdf_content_def)

lemma load_pdf_content_Inl:
  "load_pdf_content w p s = (Inl e, s1) \<Longrightarrow> ext_lazy_load w (trace s) p = Inl e"
  by (cases "ext_lazy_load w (trace s) p") (simp_all add: load_pdf_content_def Let_def split: if_split_asm)

lemma read_markdown_file_state: "snd (read_markdown_file w f s) = log_event (ReadFile f) s"
  by (simp add: read_markdown_file_def)

lemma trace_log_event: "trace (log_event e s) = trace s @ [e]"
  by (simp add: log_event_def)

lemma get_model_trace:
  "\<exists>evs. trace (snd (get_model w b s)) = trace s @ evs \<and> files_read evs = []"
  by (cases b; cases "g_json_model s"; cases "g_model s")
     (simp_all add: get_model_eqs split: option.splits)

lemma call_llm_get_model_fails:
  "get_model w b s = (Inl e, s1) \<Longrightarrow> call_llm w p b s = (Inl e, s1)"
  by (simp add: call_llm_def)

lemma call_llm_ainvoke_fails:
  "get_model w b s = (Inr h, s1) \<Longrightarrow> ext_ainvoke w (trace s1) h p = Inl e
     \<Longrightarrow> call_llm w p b s = (Inl e, log_event (Invoke h p) s1)"
  by (simp add: call_llm_def)

lemma call_llm_structured:
  "get_model w True s = (Inr h, s1) \<Longrightarrow>
   call_llm w p True s = (ext_ainvoke w (trace s1) h p, log_event (Invoke h p) s1)"
  by (cases "ext_ainvoke w (trace s1) h p") (simp_all add: call_llm_def)

lemma call_llm_state:
  "snd (call_llm w p b s) =
     (case fst (get_model w b s) of
        Inl e \<Rightarrow> snd (get_model w b s)
      | Inr h \<Rightarrow> log_event (Invoke h p) (snd (get_model w b s)))"
  by (cases "get_model w b s"; cases "fst (get_model w b s)")
     (auto simp: call_llm_def Let_def split: sum.splits pyval.splits)

lemma call_llm_trace:
  "\<exists>evs. trace (snd (call_llm w p b s)) = trace s @ evs \<and> files_read evs = []"
proof -
  obtain evs where evs: "trace (snd (get_model w b s)) = trace s @ evs" "files_read evs = []"
    using get_model_trace by blast
  show ?thesis
  proof (cases "fst (get_model w b s)")
    case (Inl e)
    then show ?thesis
      using evs by (simp add: call_llm_state)
  next
    case (Inr h)
    have "files_read (evs @ [Invoke h p]) = []"
      using evs(2) by (induction evs rule: files_read.induct) simp_all
    then show ?thesis
      using Inr evs(1) by (simp add: call_llm_state trace_log_event)
  qed
qed

lemma files_read_append: "files_read (xs @ ys) = files_read xs @ files_read ys"
  by (induction xs rule: files_read.induct) simp_all

lemma new_events_append: "trace s' = trace s @ evs \<Longrightarrow> new_events s s' = evs"
  by (simp add: new_events_def)

lemma extract_fields_load_fails:
  "ext_lazy_load w (trace s) p = Inl e \<Longrightarrow>
   extract_fields w p fd s = (Inl e, log_event (Load p) s)"
  by (simp add: extract_fields_def load_pdf_content_fails)

lemma extract_fields_after_load:
  "load_pdf_content w p s = (Inr content, s1) \<Longrightarrow>
   extract_fields w p fd s =
     (case ext_open_read w (trace s1) ''prompt.md'' of
        Inl e \<Rightarrow> (Inl e, log_event (ReadFile ''prompt.md'') s1)
      | Inr t \<Rightarrow>
          (case str_format t [(''fields_description'', fd), (''content'', content)] of
             Inl e \<Rightarrow> (Inl e, log_event (ReadFile ''prompt.md'') s1)
           | Inr prompt \<Rightarrow> call_llm w prompt True (log_event (ReadFile ''prompt.md'') s1)))"
  by (simp add: extract_fields_def read_markdown_file_def split: sum.splits)

lemma validate_extracted_data_unfold:
  "validate_extracted_data w fd d s =
     (case ext_open_read w (trace s) ''validation_prompt.md'' of
        Inl e \<Rightarrow> (Inl e, log_event (ReadFile ''validation_prompt.md'') s)
      | Inr t \<Rightarrow>
          (case validation_prompt t fd d of
             Inl e \<Rightarrow> (Inl e, log_event (ReadFile ''validation_prompt.md'') s)
           | Inr prompt \<Rightarrow> call_llm w prompt True (log_event (ReadFile ''validation_prompt.md'') s)))"
  by (simp add: validate_extracted_data_def read_markdown_file_def split: sum.splits)


text \<open>
  C1. \<open>extract_fields\<close> ingests the document, formats the text of \<open>prompt.md\<close> with the
  field description and the ingested text, calls the model in structured mode with the
  formatted prompt, and returns what the model answered, whatever it is. Its external calls
  are, in this order: the load, the read of the template, the initialisation of the
  structured handle (if it is not cached yet), and one model call.
\<close>

theorem extract_fields_returns_model_answer:
  assumes load: "load_pdf_content w pdf_path s = (Inr content, s1)"
    and read: "read_markdown_file w ''prompt.md'' s1 = (Inr prompt_template, s2)"
    and fmt: "str_format prompt_template
                [(''fields_description'', fields_description), (''content'', content)]
              = Inr formatted_prompt"
    and model: "get_model w True s2 = (Inr model, s3)"
    and answer: "ext_ainvoke w (trace s3) model formatted_prompt = Inr result"
  shows "extract_fields w pdf_path fields_description s
           = (Inr result, log_event (Invoke model formatted_prompt) s3)
         \<and> new_events s (snd (extract_fields w pdf_path fields_description s))
           = Load pdf_path # ReadFile ''prompt.md'' # new_events s2 s3
               @ [Invoke model formatted_prompt]
         \<and> files_read (new_events s2 s3) = []"
proof -
  have s1: "s1 = log_event (Load pdf_path) s"
    using load load_pdf_content_state [of w pdf_path s] by simp
  have s2: "s2 = log_event (ReadFile ''prompt.md'') s1"
    and tmpl: "ext_open_read w (trace s1) ''prompt.md'' = Inr prompt_template"
    using read by (simp_all add: read_markdown_file_def)
  have call: "call_llm w formatted_prompt True s2
                = (Inr result, log_event (Invoke model formatted_prompt) s3)"
    using call_llm_structured [OF model, of formatted_prompt] answer by simp
  have res: "extract_fields w pdf_path fields_description s
               = (Inr result, log_event (Invoke model formatted_prompt) s3)"
    using extract_fields_after_load [OF load, of fields_description] tmpl fmt call s2 by simp
  obtain evs where evs: "trace s3 = trace s2 @ evs" "files_read evs = []"
    using get_model_trace [of w True s2] model by auto
  have new23: "new_events s2 s3 = evs"
    using evs(1) by (rule new_events_append)
  have "trace (log_event (Invoke model formatted_prompt) s3)
          = trace s @ (Load pdf_path # ReadFile ''prompt.md'' # evs @ [Invoke model formatted_prompt])"
    using evs(1) s1 s2 by (simp add: trace_log_event)
  then have "new_events s (log_event (Invoke model formatted_prompt) s3)
          = Load pdf_path # ReadFile ''prompt.md'' # evs @ [Invoke model formatted_prompt]"
    by (rule new_events_append)
  then show ?thesis
    using res new23 evs(2) by simp
qed

lemma jane_format:
  "str_format fmt_demo_template
     [(''fields_description'', ''Name, Email, Skills''),
      (''content'', ''Jane Doe, jane@example.com, Python developer'')]
   = Inr jane_prompt"
  unfolding fmt_demo_template_def jane_prompt_def
  by (simp add: str_format.simps field_stop_def lookup_field_def is_digit_def emit_def)

theorem extract_fields_returns_model_answer_witness:
  "fst (load_pdf_content jane_env ''cv.pdf'' init_state)
     = Inr ''Jane Doe, jane@example.com, Python developer''
   \<and> fst (read_markdown_file jane_env ''prompt.md'' (log_event (Load ''cv.pdf'') init_state))
     = Inr fmt_demo_template
   \<and> str_format fmt_demo_template
        [(''fields_description'', ''Name, Email, Skills''),
         (''content'', ''Jane Doe, jane@example.com, Python developer'')]
     = Inr jane_prompt
   \<and> fst (extract_fields jane_env ''cv.pdf'' ''Name, Email, Skills'' init_state) = Inr jane_answer
   \<and> new_events init_state
        (snd (extract_fields jane_env ''cv.pdf'' ''Name, Email, Skills'' init_state))
     = [Load ''cv.pdf'', ReadFile ''prompt.md'', InitChatModel ''gpt-4o-mini'' ''openai'',
        WithStructuredOutput 0 ''json_mode'', Invoke 1 jane_prompt]"
proof -
  let ?s1 = "log_event (Load ''cv.pdf'') init_state"
  let ?s2 = "log_event (ReadFile ''prompt.md'') ?s1"
  let ?s3 = "snd (get_model jane_env True ?s2)"
  let ?content = "''Jane Doe, jane@example.com, Python developer''"
  have l: "fst (load_pdf_content jane_env ''cv.pdf'' init_state) = Inr ?content"
    by (simp add: load_pdf_content_def jane_env_def demo_env_def jane_chunks_def)
  have load: "load_pdf_content jane_env ''cv.pdf'' init_state = (Inr ?content, ?s1)"
    using l load_pdf_content_state [of jane_env "''cv.pdf''" init_state]
    by (simp add: prod_eq_iff)
  have r: "fst (read_markdown_file jane_env ''prompt.md'' ?s1) = Inr fmt_demo_template"
    by (simp add: read_markdown_file_def jane_env_def demo_env_def)
  have read: "read_markdown_file jane_env ''prompt.md'' ?s1 = (Inr fmt_demo_template, ?s2)"
    using r by (simp add: prod_eq_iff read_markdown_file_state)
  have slot: "g_json_model ?s2 = None"
    by (simp add: log_event_def init_state_def)
  have m: "fst (get_model jane_env True ?s2) = Inr 1"
    by (simp add: get_model_init_json jane_env_def demo_env_def log_event_def
          init_state_def)
  have model: "get_model jane_env True ?s2 = (Inr 1, ?s3)"
    using m by (simp add: prod_eq_iff)
  have evs: "new_events ?s2 ?s3
               = [InitChatModel ''gpt-4o-mini'' ''openai'', WithStructuredOutput 0 ''json_mode'']"
    by (simp add: get_model_init_json jane_env_def demo_env_def log_event_def
          init_state_def new_events_def)
  have answer: "ext_ainvoke jane_env (trace ?s3) 1 jane_prompt = Inr jane_answer"
    by (simp add: jane_env_def demo_env_def)
  note inst = extract_fields_returns_model_answer [OF load read jane_format model answer]
  have res: "fst (extract_fields jane_env ''cv.pdf'' ''Name, Email, Skills'' init_state)
               = Inr jane_answer"
    unfolding inst [THEN conjunct1] by simp
  have tr: "new_events init_state
              (snd (extract_fields jane_env ''cv.pdf'' ''Name, Email, Skills'' init_state))
            = [Load ''cv.pdf'', ReadFile ''prompt.md'', InitChatModel ''gpt-4o-mini'' ''openai'',
               WithStructuredOutput 0 ''json_mode'', Invoke 1 jane_prompt]"
    unfolding inst [THEN conjunct2, THEN conjunct1] evs by simp
  show ?thesis
    by (intro conjI) (rule l r jane_format res tr)+
qed

text \<open>
  C6. A failure is handed on as it is, and nothing further is called. When the loader
  fails, \<open>extract_fields\<close> fails with the same exception after the single \<open>Load\<close> call:
  no template is read and no model is initialised or invoked. The same holds for a failing
  template read, a failing \<open>str.format\<close>, a failing model initialisation and a failing
  model call, in \<open>extract_fields\<close>, \<open>validate_extracted_data\<close> and \<open>call_llm\<close>:
  the exception is returned unchanged and the failed call is not repeated.
\<close>

theorem failures_propagate_unchanged:
  "(ext_lazy_load w (trace s) pdf_path = Inl e \<longrightarrow>
      extract_fields w pdf_path fd s = (Inl e, log_event (Load pdf_path) s)
      \<and> new_events s (snd (extract_fields w pdf_path fd s)) = [Load pdf_path])
   \<and> (load_pdf_content w pdf_path s = (Inr content, s1) \<longrightarrow>
      ext_open_read w (trace s1) ''prompt.md'' = Inl e \<longrightarrow>
      extract_fields w pdf_path fd s = (Inl e, log_event (ReadFile ''prompt.md'') s1))
   \<and> (load_pdf_content w pdf_path s = (Inr content, s1) \<longrightarrow>
      read_markdown_file w ''prompt.md'' s1 = (Inr t, s2) \<longrightarrow>
      str_format t [(''fields_description'', fd), (''content'', content)] = Inl e \<longrightarrow>
      extract_fields w pdf_path fd s = (Inl e, s2))
   \<and> (load_pdf_content w pdf_path s = (Inr content, s1) \<longrightarrow>
      read_markdown_file w ''prompt.md'' s1 = (Inr t, s2) \<longrightarrow>
      str_format t [(''fields_description'', fd), (''content'', content)] = Inr prompt \<longrightarrow>
      call_llm w prompt True s2 = (Inl e, s3) \<longrightarrow>
      extract_fields w pdf_path fd s = (Inl e, s3))
   \<and> (get_model w json_mode s = (Inl e, s1) \<longrightarrow>
      call_llm w prompt json_mode s = (Inl e, s1))
   \<and> (get_model w json_mode s = (Inr h, s1) \<longrightarrow>
      ext_ainvoke w (trace s1) h prompt = Inl e \<longrightarrow>
      call_llm w prompt json_mode s = (Inl e, log_event (Invoke h prompt) s1))
   \<and> (ext_open_read w (trace s) ''validation_prompt.md'' = Inl e \<longrightarrow>
      validate_extracted_data w fd d s = (Inl e, log_event (ReadFile ''validation_prompt.md'') s))
   \<and> (read_markdown_file w ''validation_prompt.md'' s = (Inr t, s1) \<longrightarrow>
      validation_prompt t fd d = Inl e \<longrightarrow>
      validate_extracted_data w fd d s = (Inl e, s1))
   \<and> (read_markdown_file w ''validation_prompt.md'' s = (Inr t, s1) \<longrightarrow>
      validation_prompt t fd d = Inr prompt \<longrightarrow>
      call_llm w prompt True s1 = (Inl e, s2) \<longrightarrow>
      validate_extracted_data w fd d s = (Inl e, s2))"
proof (intro conjI impI)
  assume "ext_lazy_load w (trace s) pdf_path = Inl e"
  then show a: "extract_fields w pdf_path fd s = (Inl e, log_event (Load pdf_path) s)"
    by (rule extract_fields_load_fails)
  show "new_events s (snd (extract_fields w pdf_path fd s)) = [Load pdf_path]"
    unfolding a by (simp add: new_events_def trace_log_event)
next
  assume "load_pdf_content w pdf_path s = (Inr content, s1)"
    and "ext_open_read w (trace s1) ''prompt.md'' = Inl e"
  then show "extract_fields w pdf_path fd s = (Inl e, log_event (ReadFile ''prompt.md'') s1)"
    by (simp add: extract_fields_after_load)
next
  assume "load_pdf_content w pdf_path s = (Inr content, s1)"
    and "read_markdown_file w ''prompt.md'' s1 = (Inr t, s2)"
    and "str_format t [(''fields_description'', fd), (''content'', content)] = Inl e"
  then show "extract_fields w pdf_path fd s = (Inl e, s2)"
    by (simp add: extract_fields_def)
next
  assume "load_pdf_content w pdf_path s = (Inr content, s1)"
    and "read_markdown_file w ''prompt.md'' s1 = (Inr t, s2)"
    and "str_format t [(''fields_description'', fd), (''content'', content)] = Inr prompt"
    and "call_llm w prompt True s2 = (Inl e, s3)"
  then show "extract_fields w pdf_path fd s = (Inl e, s3)"
    by (simp add: extract_fields_def)
next
  assume "get_model w json_mode s = (Inl e, s1)"
  then show "call_llm w prompt json_mode s = (Inl e, s1)"
    by (rule call_llm_get_model_fails)
next
  assume "get_model w json_mode s = (Inr h, s1)" and "ext_ainvoke w (trace s1) h prompt = Inl e"
  then show "call_llm w prompt json_mode s = (Inl e, log_event (Invoke h prompt) s1)"
    by (rule call_llm_ainvoke_fails)
next
  assume "ext_open_read w (trace s) ''validation_prompt.md'' = Inl e"
  then show "validate_extracted_data w fd d s
               = (Inl e, log_event (ReadFile ''validation_prompt.md'') s)"
    by (simp add: validate_extracted_data_unfold)
next
  assume "read_markdown_file w ''validation_prompt.md'' s = (Inr t, s1)"
    and "validation_prompt t fd d = Inl e"
  then show "validate_extracted_data w fd d s = (Inl e, s1)"
    by (simp add: validate_extracted_data_def)
next
  assume "read_markdown_file w ''validation_prompt.md'' s = (Inr t, s1)"
    and "validation_prompt t fd d = Inr prompt"
    and "call_llm w prompt True s1 = (Inl e, s2)"
  then show "validate_extracted_data w fd d s = (Inl e, s2)"
    by (simp add: validate_extracted_data_def)
qed


theorem failures_propagate_unchanged_witness:
  "ext_lazy_load (demo_env (Inl file_not_found) (Inr fmt_demo_template) None (Inr jane_answer))
       (trace init_state) ''cv.pdf''
     = Inl file_not_found
   \<and> extract_fields (demo_env (Inl file_not_found) (Inr fmt_demo_template) None (Inr jane_answer))
       ''cv.pdf'' ''Name'' init_state
     = (Inl file_not_found, log_event (Load ''cv.pdf'') init_state)
   \<and> new_events init_state
       (snd (extract_fields
               (demo_env (Inl file_not_found) (Inr fmt_demo_template) None (Inr jane_answer))
               ''cv.pdf'' ''Name'' init_state))
     = [Load ''cv.pdf'']
   \<and> fst (extract_fields (demo_env (Inr jane_chunks) (Inl file_not_found) None (Inr jane_answer))
            ''cv.pdf'' ''Name'' init_state)
     = Inl file_not_found
   \<and> fst (extract_fields (demo_env (Inr jane_chunks) (Inr ''{missing}'') None (Inr jane_answer))
            ''cv.pdf'' ''Name'' init_state)
     = Inl (KeyError ''missing'')
   \<and> fst (call_llm (demo_env (Inr jane_chunks) (Inr fmt_demo_template) (Some no_api_key)
                      (Inr jane_answer)) ''prompt'' True init_state)
     = Inl no_api_key
   \<and> fst (call_llm (demo_env (Inr jane_chunks) (Inr fmt_demo_template) None (Inl rate_limited))
            ''prompt'' False init_state)
     = Inl rate_limited
   \<and> fst (validate_extracted_data
            (demo_env (Inr jane_chunks) (Inl file_not_found) None (Inr jane_answer))
            ''Name'' JNull init_state)
     = Inl file_not_found
   \<and> fst (validate_extracted_data jane_env ''Name'' JNull init_state) = Inl (KeyError ''content'')"
proof -
  let ?w1 = "demo_env (Inl file_not_found) (Inr fmt_demo_template) None (Inr jane_answer)"
  let ?w2 = "demo_env (Inr jane_chunks) (Inl file_not_found) None (Inr jane_answer)"
  let ?w3 = "demo_env (Inr jane_chunks) (Inr ''{missing}'') None (Inr jane_answer)"
  let ?w4 = "demo_env (Inr jane_chunks) (Inr fmt_demo_template) (Some no_api_key) (Inr jane_answer)"
  let ?w5 = "demo_env (Inr jane_chunks) (Inr fmt_demo_template) None (Inl rate_limited)"
  let ?content = "''Jane Doe, jane@example.com, Python developer''"
  let ?s1 = "log_event (Load ''cv.pdf'') init_state"
  let ?s2 = "log_event (ReadFile ''prompt.md'') ?s1"
  let ?v1 = "log_event (ReadFile ''validation_prompt.md'') init_state"
  have h1: "ext_lazy_load ?w1 (trace init_state) ''cv.pdf'' = Inl file_not_found"
    by (simp add: demo_env_def)
  have c1: "extract_fields ?w1 ''cv.pdf'' ''Name'' init_state = (Inl file_not_found, ?s1)
            \<and> new_events init_state (snd (extract_fields ?w1 ''cv.pdf'' ''Name'' init_state))
                = [Load ''cv.pdf'']"
    using failures_propagate_unchanged
      [where w = ?w1 and s = init_state and pdf_path = "''cv.pdf''" and e = file_not_found
         and fd = "''Name''"] h1
    by blast
  have load: "load_pdf_content w ''cv.pdf'' init_state = (Inr ?content, ?s1)"
    if "ext_lazy_load w (trace init_state) ''cv.pdf'' = Inr jane_chunks" for w
    using that load_pdf_content_state [of w "''cv.pdf''" init_state]
    by (simp add: prod_eq_iff load_pdf_content_def jane_chunks_def)
  have h2: "ext_open_read ?w2 (trace ?s1) ''prompt.md'' = Inl file_not_found"
    by (simp add: demo_env_def)
  have c2: "fst (extract_fields ?w2 ''cv.pdf'' ''Name'' init_state) = Inl file_not_found"
    using failures_propagate_unchanged
      [where w = ?w2 and s = init_state and pdf_path = "''cv.pdf''" and e = file_not_found
         and fd = "''Name''" and content = ?content and ?s1.0 = ?s1]
      load [of ?w2] h2
    by (simp add: demo_env_def)
  have h3r: "read_markdown_file ?w3 ''prompt.md'' ?s1 = (Inr ''{missing}'', ?s2)"
    by (simp add: read_markdown_file_def demo_env_def)
  have h3f: "str_format ''{missing}'' [(''fields_description'', ''Name''), (''content'', ?content)]
               = Inl (KeyError ''missing'')"
    by (simp add: str_format.simps field_stop_def lookup_field_def is_digit_def emit_def)
  have c3: "fst (extract_fields ?w3 ''cv.pdf'' ''Name'' init_state) = Inl (KeyError ''missing'')"
    using failures_propagate_unchanged
      [where w = ?w3 and s = init_state and pdf_path = "''cv.pdf''" and e = "KeyError ''missing''"
         and fd = "''Name''" and content = ?content and ?s1.0 = ?s1 and t = "''{missing}''"
         and ?s2.0 = ?s2]
      load [of ?w3] h3r h3f
    by (simp add: demo_env_def)
  have h4: "fst (get_model ?w4 True init_state) = Inl no_api_key"
    by (simp add: get_model_init_json init_state_def demo_env_def)
  have c4: "fst (call_llm ?w4 ''prompt'' True init_state) = Inl no_api_key"
    using failures_propagate_unchanged
      [where w = ?w4 and s = init_state and e = no_api_key and json_mode = True
         and prompt = "''prompt''" and ?s1.0 = "snd (get_model ?w4 True init_state)"] h4
    by (simp add: prod_eq_iff)
  have h5: "fst (get_model ?w5 False init_state) = Inr 0"
    by (simp add: get_model_init_text init_state_def demo_env_def)
  have h5a: "ext_ainvoke ?w5 (trace (snd (get_model ?w5 False init_state))) 0 ''prompt''
               = Inl rate_limited"
    by (simp add: demo_env_def)
  have c5: "fst (call_llm ?w5 ''prompt'' False init_state) = Inl rate_limited"
    using failures_propagate_unchanged
      [where w = ?w5 and s = init_state and e = rate_limited and json_mode = False
         and prompt = "''prompt''" and ?s1.0 = "snd (get_model ?w5 False init_state)" and h = 0]
      h5 h5a
    by (simp add: prod_eq_iff)
  have h6: "ext_open_read ?w2 (trace init_state) ''validation_prompt.md'' = Inl file_not_found"
    by (simp add: demo_env_def)
  have c6: "fst (validate_extracted_data ?w2 ''Name'' JNull init_state) = Inl file_not_found"
    using failures_propagate_unchanged
      [where w = ?w2 and s = init_state and e = file_not_found and fd = "''Name''" and d = JNull]
      h6
    by simp
  have h7r: "read_markdown_file jane_env ''validation_prompt.md'' init_state
               = (Inr fmt_demo_template, ?v1)"
    by (simp add: read_markdown_file_def jane_env_def demo_env_def)
  have h7f: "validation_prompt fmt_demo_template ''Name'' JNull = Inl (KeyError ''content'')"
    unfolding validation_prompt_def fmt_demo_template_def
    by (simp add: str_format.simps field_stop_def lookup_field_def is_digit_def emit_def)
  have c7: "fst (validate_extracted_data jane_env ''Name'' JNull init_state)
              = Inl (KeyError ''content'')"
    using failures_propagate_unchanged
      [where w = jane_env and s = init_state and e = "KeyError ''content''" and fd = "''Name''"
         and d = JNull and t = fmt_demo_template and ?s1.0 = ?v1]
      h7r h7f
    by simp
  show ?thesis
    using h1 c1 c2 c3 c4 c5 c6 c7 by blast
qed


lemma load_pdf_content_cases:
  "(\<exists>e. load_pdf_content w p s = (Inl e, log_event (Load p) s))
   \<or> (\<exists>content. load_pdf_content w p s = (Inr content, log_event (Load p) s))"
  using load_pdf_content_state [of w p s]
  by (cases "fst (load_pdf_content w p s)") (auto simp: prod_eq_iff)

lemma extract_fields_trace_after_load:
  assumes "load_pdf_content w p s = (Inr content, s1)"
  shows "\<exists>evs. trace (snd (extract_fields w p fd s))
                 = trace s @ Load p # ReadFile ''prompt.md'' # evs
               \<and> files_read evs = []"
proof -
  let ?s2 = "log_event (ReadFile ''prompt.md'') s1"
  have s1: "s1 = log_event (Load p) s"
    using assms load_pdf_content_state [of w p s] by simp
  have base: "trace ?s2 = trace s @ [Load p, ReadFile ''prompt.md'']"
    using s1 by (simp add: trace_log_event)
  have stop: "snd (extract_fields w p fd s) = ?s2 \<Longrightarrow> ?thesis"
    using base by simp
  show ?thesis
  proof (cases "ext_open_read w (trace s1) ''prompt.md''")
    case (Inl e)
    then show ?thesis
      using stop by (simp add: extract_fields_after_load [OF assms])
  next
    case (Inr t)
    show ?thesis
    proof (cases "str_format t [(''fields_description'', fd), (''content'', content)]")
      case (Inl e)
      then show ?thesis
        using stop Inr by (simp add: extract_fields_after_load [OF assms])
    next
      case fmt: (Inr prompt)
      obtain evs where evs: "trace (snd (call_llm w prompt True ?s2)) = trace ?s2 @ evs"
          "files_read evs = []"
        using call_llm_trace by blast
      have "snd (extract_fields w p fd s) = snd (call_llm w prompt True ?s2)"
        using Inr fmt by (simp add: extract_fields_after_load [OF assms])
      then show ?thesis
        using evs base by simp
    qed
  qed
qed

lemma validate_extracted_data_trace:
  "\<exists>evs. trace (snd (validate_extracted_data w fd d s))
           = trace s @ ReadFile ''validation_prompt.md'' # evs
         \<and> files_read evs = []"
proof -
  let ?s1 = "log_event (ReadFile ''validation_prompt.md'') s"
  have base: "trace ?s1 = trace s @ [ReadFile ''validation_prompt.md'']"
    by (simp add: trace_log_event)
  have stop: "snd (validate_extracted_data w fd d s) = ?s1 \<Longrightarrow> ?thesis"
    using base by simp
  show ?thesis
  proof (cases "ext_open_read w (trace s) ''validation_prompt.md''")
    case (Inl e)
    then show ?thesis
      using stop by (simp add: validate_extracted_data_unfold)
  next
    case (Inr t)
    show ?thesis
    proof (cases "validation_prompt t fd d")
      case (Inl e)
      then show ?thesis
        using stop Inr by (simp add: validate_extracted_data_unfold)
    next
      case fmt: (Inr prompt)
      obtain evs where evs: "trace (snd (call_llm w prompt True ?s1)) = trace ?s1 @ evs"
          "files_read evs = []"
        using call_llm_trace by blast
      have "snd (validate_extracted_data w fd d s) = snd (call_llm w prompt True ?s1)"
        using Inr fmt by (simp add: validate_extracted_data_unfold)
      then show ?thesis
        using evs base by simp
    qed
  qed
qed

text \<open>
  C8. On every run \<open>extract_fields\<close> opens no file but \<open>prompt.md\<close> (and opens it once
  when ingestion succeeds), \<open>validate_extracted_data\<close> opens exactly
  \<open>validation_prompt.md\<close>, and the two names differ: neither step reads the other's
  template.
\<close>

theorem steps_read_their_own_template:
  "set (files_read (new_events s (snd (extract_fields w pdf_path fd s)))) \<subseteq> {''prompt.md''}
   \<and> (load_pdf_content w pdf_path s = (Inr content, s1) \<longrightarrow>
        files_read (new_events s (snd (extract_fields w pdf_path fd s))) = [''prompt.md''])
   \<and> files_read (new_events s (snd (validate_extracted_data w fd d s)))
        = [''validation_prompt.md'']
   \<and> ''prompt.md'' \<noteq> ''validation_prompt.md''"
proof (intro conjI impI)
  have ok: "files_read (new_events s (snd (extract_fields w pdf_path fd s))) = [''prompt.md'']"
    if loaded: "load_pdf_content w pdf_path s = (Inr c, s')" for c s'
  proof -
    obtain evs where evs: "trace (snd (extract_fields w pdf_path fd s))
        = trace s @ Load pdf_path # ReadFile ''prompt.md'' # evs" "files_read evs = []"
      using extract_fields_trace_after_load [OF loaded] by blast
    show ?thesis
      unfolding new_events_append [OF evs(1)] using evs(2) by simp
  qed
  show "set (files_read (new_events s (snd (extract_fields w pdf_path fd s)))) \<subseteq> {''prompt.md''}"
  proof (cases "ext_lazy_load w (trace s) pdf_path")
    case (Inl e)
    then show ?thesis
      by (simp add: extract_fields_load_fails new_events_def trace_log_event)
  next
    case (Inr chunks)
    then obtain c where "load_pdf_content w pdf_path s = (Inr c, log_event (Load pdf_path) s)"
      using load_pdf_content_cases [of w pdf_path s] load_pdf_content_Inl [of w pdf_path s]
      by fastforce
    then show ?thesis
      using ok by simp
  qed
  show "files_read (new_events s (snd (extract_fields w pdf_path fd s))) = [''prompt.md'']"
    if "load_pdf_content w pdf_path s = (Inr content, s1)"
    using ok [OF that] .
  show "files_read (new_events s (snd (validate_extracted_data w fd d s)))
          = [''validation_prompt.md'']"
  proof -
    obtain evs where evs: "trace (snd (validate_extracted_data w fd d s))
        = trace s @ ReadFile ''validation_prompt.md'' # evs" "files_read evs = []"
      using validate_extracted_data_trace by blast
    show ?thesis
      unfolding new_events_append [OF evs(1)] using evs(2) by simp
  qed
  show "''prompt.md'' \<noteq> ''validation_prompt.md''"
    by simp
qed

theorem steps_read_their_own_template_witness:
  "fst (load_pdf_content jane_env ''cv.pdf'' init_state)
     = Inr ''Jane Doe, jane@example.com, Python developer''
   \<and> files_read (new_events init_state
        (snd (extract_fields jane_env ''cv.pdf'' ''Name, Email, Skills'' init_state)))
     = [''prompt.md'']
   \<and> files_read (new_events init_state
        (snd (validate_extracted_data jane_env ''Name, Email, Skills'' JNull init_state)))
     = [''validation_prompt.md'']"
proof -
  have l: "fst (load_pdf_content jane_env ''cv.pdf'' init_state)
             = Inr ''Jane Doe, jane@example.com, Python developer''"
    by (simp add: load_pdf_content_def jane_env_def demo_env_def jane_chunks_def)
  have load: "load_pdf_content jane_env ''cv.pdf'' init_state
                = (Inr ''Jane Doe, jane@example.com, Python developer'',
                   log_event (Load ''cv.pdf'') init_state)"
    using l load_pdf_content_state [of jane_env "''cv.pdf''" init_state]
    by (simp add: prod_eq_iff)
  note inst = steps_read_their_own_template
    [where w = jane_env and s = init_state and pdf_path = "''cv.pdf''"
       and fd = "''Name, Email, Skills''" and d = JNull
       and content = "''Jane Doe, jane@example.com, Python developer''"
       and ?s1.0 = "log_event (Load ''cv.pdf'') init_state"]
  show ?thesis
    using l load inst by blast
qed


section \<open>Properties of the presentation\<close>

lemma score_color_zero: "score_color (JInt 0) = Inr ''red''"
  by (simp add: score_color_def py_ge_def)

lemma show_details_empty: "show_details (JDict []) out = (Inr (), out)"
  by (simp add: show_details_def py_truthy_def)

lemma render_field_default:
  "dict_get field_evaluations field (JDict []) = Inr (JDict []) \<Longrightarrow>
   render_field field_evaluations (field, v) out
     = (Inr (), out @ FieldHeader field ''red'' (JInt 0) # show_value v @ [Rule])"
  by (simp add: render_field_def dict_get_def score_color_zero show_details_empty)

text \<open>Nothing that has been shown is taken back: every step only adds to the page.\<close>

lemma show_detail_prefix: "prefix out (snd (show_detail evaluation key mk out))"
  by (simp add: show_detail_def split: sum.split)

lemma show_details_prefix: "prefix out (snd (show_details evaluation out))"
proof (cases "py_truthy evaluation")
  case False
  then show ?thesis
    by (simp add: show_details_def)
next
  case True
  obtain r1 o1 where s1: "show_detail evaluation (u ''coverage'') Coverage out = (r1, o1)"
    by (cases "show_detail evaluation (u ''coverage'') Coverage out") blast
  obtain r2 o2 where s2: "show_detail evaluation (u ''correctness'') Correctness o1 = (r2, o2)"
    by (cases "show_detail evaluation (u ''correctness'') Correctness o1") blast
  obtain r3 o3 where s3: "show_detail evaluation (u ''issues'') Issues o2 = (r3, o3)"
    by (cases "show_detail evaluation (u ''issues'') Issues o2") blast
  have p1: "prefix out o1"
    using show_detail_prefix [of out evaluation "u ''coverage''" Coverage] s1 by simp
  have p2: "prefix o1 o2"
    using show_detail_prefix [of o1 evaluation "u ''correctness''" Correctness] s2 by simp
  have p3: "prefix o2 o3"
    using show_detail_prefix [of o2 evaluation "u ''issues''" Issues] s3 by simp
  have p12: "prefix out o2"
    using p1 p2 by (rule prefix_order.trans)
  have p13: "prefix out o3"
    using p12 p3 by (rule prefix_order.trans)
  show ?thesis
    using True s1 s2 s3 p1 p12 p13
    by (cases r1; cases r2) (simp_all add: show_details_def)
qed

lemma render_field_prefix: "prefix out (snd (render_field field_evaluations item out))"
proof (cases "dict_get field_evaluations (fst item) (JDict [])")
  case Inl
  then show ?thesis by (simp add: render_field_def)
next
  case (Inr evaluation)
  note ev = Inr
  show ?thesis
  proof (cases "dict_get evaluation (u ''score'') (JInt 0)")
    case Inl
    then show ?thesis using ev by (simp add: render_field_def)
  next
    case (Inr score)
    note sc = Inr
    show ?thesis
    proof (cases "score_color score")
      case Inl
      then show ?thesis using ev sc by (simp add: render_field_def)
    next
      case (Inr field_color)
      let ?shown = "out @ FieldHeader (fst item) field_color score # show_value (snd item)"
      obtain r o1 where sd: "show_details evaluation ?shown = (r, o1)"
        by (cases "show_details evaluation ?shown") blast
      have "prefix ?shown o1"
        using show_details_prefix [of ?shown evaluation] sd by simp
      then have p: "prefix out o1"
        by (rule append_prefixD)
      then have p': "prefix out (o1 @ [Rule])"
        by (rule prefix_prefix)
      show ?thesis
        using ev sc Inr sd p p' by (cases r) (simp_all add: render_field_def)
    qed
  qed
qed

lemma render_fields_prefix: "prefix out (snd (render_fields field_evaluations items out))"
proof (induction items arbitrary: out)
  case Nil
  show ?case by simp
next
  case (Cons item items)
  obtain r o1 where rf: "render_field field_evaluations item out = (r, o1)"
    by (cases "render_field field_evaluations item out") blast
  have p1: "prefix out o1"
    using render_field_prefix [of out field_evaluations item] rf by simp
  have "prefix o1 (snd (render_fields field_evaluations items o1))"
    by (rule Cons.IH)
  with p1 have "prefix out (snd (render_fields field_evaluations items o1))"
    by (rule prefix_order.trans)
  then show ?case
    using rf p1 by (cases r) simp_all
qed

text \<open>The page for a validation result whose overall score can be coloured.\<close>

lemma render_results_unfold:
  assumes "(case map_of vr (u ''overall_score'') of None \<Rightarrow> JInt 0 | Some x \<Rightarrow> x) = overall_score"
    and "score_color overall_score = Inr color"
  shows "render_results (JDict items) (JDict vr) =
     (case render_fields
             (case map_of vr (u ''field_evaluations'') of None \<Rightarrow> JDict [] | Some x \<Rightarrow> x) items
             ([Success, OverallHeader color overall_score]
              @ (case map_of vr (u ''summary'') of None \<Rightarrow> [] | Some sm \<Rightarrow> [Summary sm])
              @ [Rule, Subheader]) of
        (Inl e, out4) \<Rightarrow> (Inl e, out4)
      | (Inr _, out4) \<Rightarrow> (Inr (), out4 @ [RawData (JDict items) (JDict vr)]))"
  using assms
  by (cases "map_of vr (u ''overall_score'')"; cases "map_of vr (u ''summary'')";
      cases "map_of vr (u ''field_evaluations'')")
     (simp_all add: render_results_def dict_get_def)

lemma render_results_begins:
  assumes "(case map_of vr (u ''overall_score'') of None \<Rightarrow> JInt 0 | Some x \<Rightarrow> x) = overall_score"
    and "score_color overall_score = Inr color"
  shows "prefix [Success, OverallHeader color overall_score]
           (snd (render_results (JDict items) (JDict vr)))"
proof -
  let ?fe = "case map_of vr (u ''field_evaluations'') of None \<Rightarrow> JDict [] | Some x \<Rightarrow> x"
  let ?out3 = "[Success, OverallHeader color overall_score]
              @ (case map_of vr (u ''summary'') of None \<Rightarrow> [] | Some sm \<Rightarrow> [Summary sm])
              @ [Rule, Subheader]"
  obtain r out4 where rf: "render_fields ?fe items ?out3 = (r, out4)"
    by (cases "render_fields ?fe items ?out3") blast
  have "prefix ?out3 out4"
    using render_fields_prefix [of ?out3 ?fe items] rf by simp
  then have p: "prefix [Success, OverallHeader color overall_score] out4"
    by (rule append_prefixD)
  then have p': "prefix [Success, OverallHeader color overall_score]
                   (out4 @ [RawData (JDict items) (JDict vr)])"
    by (rule prefix_prefix)
  show ?thesis
    unfolding render_results_unfold [OF assms] rf using p p' by (cases r) simp_all
qed

text \<open>With no evaluation at all, every field is shown with the default.\<close>

lemma render_fields_all_default:
  "render_fields (JDict []) items out =
     (Inr (), out @ concat (map (\<lambda>item. FieldHeader (fst item) ''red'' (JInt 0)
                                          # show_value (snd item) @ [Rule]) items))"
proof (induction items arbitrary: out)
  case Nil
  show ?case by simp
next
  case (Cons item items)
  have "render_field (JDict []) item out
          = (Inr (), out @ FieldHeader (fst item) ''red'' (JInt 0) # show_value (snd item) @ [Rule])"
    using render_field_default [of "JDict []" "fst item" "snd item" out]
    by (simp add: dict_get_def)
  then show ?case
    using Cons.IH by simp
qed

text \<open>A field without an evaluation, in a page that was rendered to the end.\<close>

lemma render_fields_default_shown:
  "render_fields (JDict fe) items out = (Inr (), out') \<Longrightarrow> (field, v) \<in> set items \<Longrightarrow>
   map_of fe field = None \<Longrightarrow>
   sublist (FieldHeader field ''red'' (JInt 0) # show_value v @ [Rule]) out'"
proof (induction items arbitrary: out)
  case Nil
  then show ?case by simp
next
  case (Cons item items)
  obtain r o1 where rf: "render_field (JDict fe) item out = (r, o1)"
    by (cases "render_field (JDict fe) item out") blast
  have rest: "r = Inr () \<and> render_fields (JDict fe) items o1 = (Inr (), out')"
    using Cons.prems(1) rf by (cases r) simp_all
  show ?case
  proof (cases "item = (field, v)")
    case True
    have "render_field (JDict fe) (field, v) out
            = (Inr (), out @ FieldHeader field ''red'' (JInt 0) # show_value v @ [Rule])"
      using Cons.prems(3) by (intro render_field_default) (simp add: dict_get_def)
    then have o1: "o1 = out @ FieldHeader field ''red'' (JInt 0) # show_value v @ [Rule]"
      using rf True by simp
    have here: "sublist (FieldHeader field ''red'' (JInt 0) # show_value v @ [Rule]) o1"
      unfolding o1 by (rule sublist_append_leftI)
    have "prefix o1 out'"
      using render_fields_prefix [of o1 "JDict fe" items] rest by simp
    then have "sublist o1 out'"
      by (rule prefix_imp_sublist)
    with here show ?thesis
      by (rule sublist_order.order.trans)
  next
    case False
    then have "(field, v) \<in> set items"
      using Cons.prems(2) by auto
    with rest show ?thesis
      using Cons.prems(3) by (intro Cons.IH [of o1]) simp_all
  qed
qed

lemma render_results_default_shown:
  assumes fe: "(case map_of vr (u ''field_evaluations'') of None \<Rightarrow> JDict [] | Some x \<Rightarrow> x) = JDict fe"
    and ok: "fst (render_results (JDict items) (JDict vr)) = Inr ()"
    and item: "(field, v) \<in> set items" and none: "map_of fe field = None"
  shows "sublist (FieldHeader field ''red'' (JInt 0) # show_value v @ [Rule])
           (snd (render_results (JDict items) (JDict vr)))"
proof -
  let ?os = "case map_of vr (u ''overall_score'') of None \<Rightarrow> JInt 0 | Some x \<Rightarrow> x"
  have os: "dict_get (JDict vr) (u ''overall_score'') (JInt 0) = Inr ?os"
    by (cases "map_of vr (u ''overall_score'')") (simp_all add: dict_get_def)
  obtain color where color: "score_color ?os = Inr color"
    using ok os by (cases "score_color ?os") (simp_all add: render_results_def)
  let ?out3 = "[Success, OverallHeader color ?os]
              @ (case map_of vr (u ''summary'') of None \<Rightarrow> [] | Some sm \<Rightarrow> [Summary sm])
              @ [Rule, Subheader]"
  note unfolded = render_results_unfold [OF refl color, of items, unfolded fe]
  obtain r out4 where rf: "render_fields (JDict fe) items ?out3 = (r, out4)"
    by (cases "render_fields (JDict fe) items ?out3") blast
  have r: "r = Inr ()"
    using ok unfolding unfolded rf by (cases r) simp_all
  have "sublist (FieldHeader field ''red'' (JInt 0) # show_value v @ [Rule]) out4"
    using rf [unfolded r] item none by (rule render_fields_default_shown)
  moreover have "sublist out4 (out4 @ [RawData (JDict items) (JDict vr)])"
    by (rule prefix_imp_sublist) simp
  ultimately have "sublist (FieldHeader field ''red'' (JInt 0) # show_value v @ [Rule])
                     (out4 @ [RawData (JDict items) (JDict vr)])"
    by (rule sublist_order.order.trans)
  then show ?thesis
    unfolding unfolded rf r by simp
qed

text \<open>The second scenario of the specification, rendered.\<close>

lemma jane_presentation:
  "render_results jane_extraction jane_validation =
     (Inr (),
      [Success, OverallHeader ''green'' (JInt 9), Summary (JStr (u ''Strong match'')), Rule,
       Subheader,
       FieldHeader (u ''name'') ''green'' (JInt 10), ValueLine (JStr (u ''Jane Doe'')),
       Coverage (JStr (u ''full'')), Correctness (JStr (u ''exact'')), Rule,
       FieldHeader (u ''email'') ''red'' (JInt 0), ValueLine (JStr (u ''jane@example.com'')), Rule,
       FieldHeader (u ''skills'') ''red'' (JInt 0), Bullet (JStr (u ''Python'')), Rule,
       RawData jane_extraction jane_validation])"
  by (simp add: render_results_def jane_extraction_def jane_validation_def dict_get_def
        score_color_def py_ge_def render_field_def show_details_def show_detail_def
        py_truthy_def show_value_def show_item_def)

text \<open>
  C9. A field of the extraction that has no entry in the validation result's
  \<open>field_evaluations\<close> mapping (or when that mapping is missing altogether) is shown with
  the default evaluation: score 0, colour red, no coverage, correctness or issues line, and
  no error; on a page that \<open>render_results\<close> renders to the end, that block stands in the
  output. When \<open>overall_score\<close> is missing, the page that \<open>render_results\<close> produces
  begins with the success banner and the overall header with score 0 in red. A validation
  result that has neither key is rendered without error, whatever the extraction holds,
  as the banner, the header with 0, the summary if any, and every field with the default.
\<close>

theorem missing_evaluation_defaults_to_zero:
  "(map_of fe field = None \<longrightarrow>
      render_field (JDict fe) (field, v) out
        = (Inr (), out @ FieldHeader field ''red'' (JInt 0) # show_value v @ [Rule]))
   \<and> (map_of vr (u ''field_evaluations'') = None \<longrightarrow>
      dict_get (JDict vr) (u ''field_evaluations'') (JDict []) = Inr (JDict [])
      \<and> render_field (JDict []) (field, v) out
        = (Inr (), out @ FieldHeader field ''red'' (JInt 0) # show_value v @ [Rule]))
   \<and> (map_of vr (u ''overall_score'') = None \<longrightarrow>
      dict_get (JDict vr) (u ''overall_score'') (JInt 0) = Inr (JInt 0)
      \<and> score_color (JInt 0) = Inr ''red''
      \<and> prefix [Success, OverallHeader ''red'' (JInt 0)]
           (snd (render_results (JDict items) (JDict vr))))
   \<and> (map_of vr (u ''overall_score'') = None \<longrightarrow>
      map_of vr (u ''field_evaluations'') = None \<longrightarrow>
      render_results (JDict items) (JDict vr) =
        (Inr (),
         [Success, OverallHeader ''red'' (JInt 0)]
         @ (case map_of vr (u ''summary'') of None \<Rightarrow> [] | Some sm \<Rightarrow> [Summary sm])
         @ [Rule, Subheader]
         @ concat (map (\<lambda>item. FieldHeader (fst item) ''red'' (JInt 0)
                                  # show_value (snd item) @ [Rule]) items)
         @ [RawData (JDict items) (JDict vr)]))
   \<and> (map_of vr (u ''field_evaluations'') = Some (JDict fe) \<longrightarrow> map_of fe field = None \<longrightarrow>
      (field, v) \<in> set items \<longrightarrow> fst (render_results (JDict items) (JDict vr)) = Inr () \<longrightarrow>
      sublist (FieldHeader field ''red'' (JInt 0) # show_value v @ [Rule])
        (snd (render_results (JDict items) (JDict vr))))
   \<and> (map_of vr (u ''field_evaluations'') = None \<longrightarrow>
      (field, v) \<in> set items \<longrightarrow> fst (render_results (JDict items) (JDict vr)) = Inr () \<longrightarrow>
      sublist (FieldHeader field ''red'' (JInt 0) # show_value v @ [Rule])
        (snd (render_results (JDict items) (JDict vr))))"
proof (intro conjI impI)
  assume "map_of fe field = None"
  then show "render_field (JDict fe) (field, v) out
        = (Inr (), out @ FieldHeader field ''red'' (JInt 0) # show_value v @ [Rule])"
    by (intro render_field_default) (simp add: dict_get_def)
next
  assume "map_of vr (u ''field_evaluations'') = None"
  then show "dict_get (JDict vr) (u ''field_evaluations'') (JDict []) = Inr (JDict [])"
    by (simp add: dict_get_def)
  show "render_field (JDict []) (field, v) out
        = (Inr (), out @ FieldHeader field ''red'' (JInt 0) # show_value v @ [Rule])"
    by (intro render_field_default) (simp add: dict_get_def)
next
  assume a: "map_of vr (u ''overall_score'') = None"
  then show "dict_get (JDict vr) (u ''overall_score'') (JInt 0) = Inr (JInt 0)"
    by (simp add: dict_get_def)
  show "score_color (JInt 0) = Inr ''red''"
    by (rule score_color_zero)
  have "(case map_of vr (u ''overall_score'') of None \<Rightarrow> JInt 0 | Some x \<Rightarrow> x) = JInt 0"
    using a by simp
  then show "prefix [Success, OverallHeader ''red'' (JInt 0)]
           (snd (render_results (JDict items) (JDict vr)))"
    using score_color_zero by (rule render_results_begins)
next
  assume a: "map_of vr (u ''overall_score'') = None"
    and b: "map_of vr (u ''field_evaluations'') = None"
  have os: "(case map_of vr (u ''overall_score'') of None \<Rightarrow> JInt 0 | Some x \<Rightarrow> x) = JInt 0"
    using a by simp
  show "render_results (JDict items) (JDict vr) =
        (Inr (),
         [Success, OverallHeader ''red'' (JInt 0)]
         @ (case map_of vr (u ''summary'') of None \<Rightarrow> [] | Some sm \<Rightarrow> [Summary sm])
         @ [Rule, Subheader]
         @ concat (map (\<lambda>item. FieldHeader (fst item) ''red'' (JInt 0)
                                  # show_value (snd item) @ [Rule]) items)
         @ [RawData (JDict items) (JDict vr)])"
    unfolding render_results_unfold [OF os score_color_zero] b
    by (simp add: render_fields_all_default)
next
  assume "map_of vr (u ''field_evaluations'') = Some (JDict fe)"
  then have fe: "(case map_of vr (u ''field_evaluations'') of None \<Rightarrow> JDict [] | Some x \<Rightarrow> x)
                   = JDict fe"
    by simp
  assume none: "map_of fe field = None" and item: "(field, v) \<in> set items"
    and ok: "fst (render_results (JDict items) (JDict vr)) = Inr ()"
  show "sublist (FieldHeader field ''red'' (JInt 0) # show_value v @ [Rule])
        (snd (render_results (JDict items) (JDict vr)))"
    using fe ok item none by (rule render_results_default_shown)
next
  assume "map_of vr (u ''field_evaluations'') = None"
  then have fe: "(case map_of vr (u ''field_evaluations'') of None \<Rightarrow> JDict [] | Some x \<Rightarrow> x)
                   = JDict []"
    by simp
  assume item: "(field, v) \<in> set items"
    and ok: "fst (render_results (JDict items) (JDict vr)) = Inr ()"
  have none: "map_of [] field = None"
    by simp
  show "sublist (FieldHeader field ''red'' (JInt 0) # show_value v @ [Rule])
        (snd (render_results (JDict items) (JDict vr)))"
    using fe ok item none by (rule render_results_default_shown)
qed

theorem missing_evaluation_defaults_to_zero_witness:
  "map_of [(u ''name'', JDict [(u ''score'', JInt 10)])] (u ''email'') = None
   \<and> render_field (JDict [(u ''name'', JDict [(u ''score'', JInt 10)])])
        (u ''email'', JStr (u ''jane@example.com'')) []
      = (Inr (), [FieldHeader (u ''email'') ''red'' (JInt 0),
                  ValueLine (JStr (u ''jane@example.com'')), Rule])
   \<and> map_of [(u ''summary'', JStr (u ''Strong match''))] (u ''overall_score'') = None
   \<and> map_of [(u ''summary'', JStr (u ''Strong match''))] (u ''field_evaluations'') = None
   \<and> dict_get (JDict [(u ''summary'', JStr (u ''Strong match''))]) (u ''overall_score'') (JInt 0)
      = Inr (JInt 0)
   \<and> prefix [Success, OverallHeader ''red'' (JInt 0)]
        (snd (render_results jane_extraction (JDict [(u ''summary'', JStr (u ''Strong match''))])))
   \<and> render_results jane_extraction (JDict [(u ''summary'', JStr (u ''Strong match''))])
      = (Inr (),
         [Success, OverallHeader ''red'' (JInt 0), Summary (JStr (u ''Strong match'')), Rule,
          Subheader,
          FieldHeader (u ''name'') ''red'' (JInt 0), ValueLine (JStr (u ''Jane Doe'')), Rule,
          FieldHeader (u ''email'') ''red'' (JInt 0), ValueLine (JStr (u ''jane@example.com'')),
          Rule,
          FieldHeader (u ''skills'') ''red'' (JInt 0), Bullet (JStr (u ''Python'')), Rule,
          RawData jane_extraction (JDict [(u ''summary'', JStr (u ''Strong match''))])])
   \<and> (u ''email'', JStr (u ''jane@example.com''))
        \<in> set [(u ''name'', JStr (u ''Jane Doe'')),
                (u ''email'', JStr (u ''jane@example.com'')),
                (u ''skills'', JList [JStr (u ''Python'')])]
   \<and> sublist [FieldHeader (u ''email'') ''red'' (JInt 0),
               ValueLine (JStr (u ''jane@example.com'')), Rule]
        (snd (render_results jane_extraction (JDict [(u ''summary'', JStr (u ''Strong match''))])))
   \<and> map_of [(u ''overall_score'', JInt 9),
              (u ''summary'', JStr (u ''Strong match'')),
              (u ''field_evaluations'',
                 JDict [(u ''name'',
                           JDict [(u ''score'', JInt 10),
                                  (u ''coverage'', JStr (u ''full'')),
                                  (u ''correctness'', JStr (u ''exact'')),
                                  (u ''issues'', JStr [])])])] (u ''field_evaluations'')
      = Some (JDict [(u ''name'',
                           JDict [(u ''score'', JInt 10),
                                  (u ''coverage'', JStr (u ''full'')),
                                  (u ''correctness'', JStr (u ''exact'')),
                                  (u ''issues'', JStr [])])])
   \<and> map_of [(u ''name'',
                JDict [(u ''score'', JInt 10),
                       (u ''coverage'', JStr (u ''full'')),
                       (u ''correctness'', JStr (u ''exact'')),
                       (u ''issues'', JStr [])])] (u ''email'') = None
   \<and> fst (render_results jane_extraction jane_validation) = Inr ()
   \<and> sublist [FieldHeader (u ''email'') ''red'' (JInt 0),
               ValueLine (JStr (u ''jane@example.com'')), Rule]
        (snd (render_results jane_extraction jane_validation))"
proof -
  let ?fe = "[(u ''name'', JDict [(u ''score'', JInt 10)])]"
  let ?vr = "[(u ''summary'', JStr (u ''Strong match''))]"
  let ?items = "[(u ''name'', JStr (u ''Jane Doe'')),
                 (u ''email'', JStr (u ''jane@example.com'')),
                 (u ''skills'', JList [JStr (u ''Python'')])]"
  let ?fe2 = "[(u ''name'',
                JDict [(u ''score'', JInt 10),
                       (u ''coverage'', JStr (u ''full'')),
                       (u ''correctness'', JStr (u ''exact'')),
                       (u ''issues'', JStr [])])]"
  let ?vr2 = "[(u ''overall_score'', JInt 9),
              (u ''summary'', JStr (u ''Strong match'')),
              (u ''field_evaluations'', JDict ?fe2)]"
  let ?block = "[FieldHeader (u ''email'') ''red'' (JInt 0),
                 ValueLine (JStr (u ''jane@example.com'')), Rule]"
  have sv: "show_value (JStr (u ''jane@example.com'')) = [ValueLine (JStr (u ''jane@example.com''))]"
    by (simp add: show_value_def py_truthy_def)
  have h1: "map_of ?fe (u ''email'') = None"
    by simp
  have h2: "map_of ?vr (u ''overall_score'') = None"
    by simp
  have h3: "map_of ?vr (u ''field_evaluations'') = None"
    by simp
  have h4: "(u ''email'', JStr (u ''jane@example.com'')) \<in> set ?items"
    by simp
  note inst = missing_evaluation_defaults_to_zero
    [where fe = ?fe and field = "u ''email''" and v = "JStr (u ''jane@example.com'')"
       and out = "[]" and vr = ?vr and items = ?items]
  have c1: "render_field (JDict ?fe) (u ''email'', JStr (u ''jane@example.com'')) [] = (Inr (), ?block)"
    using inst [THEN conjunct1] h1 sv by simp
  note third = inst [THEN conjunct2, THEN conjunct2, THEN conjunct1, rule_format, OF h2]
  have c2: "dict_get (JDict ?vr) (u ''overall_score'') (JInt 0) = Inr (JInt 0)"
    using third by (rule conjunct1)
  have c3: "prefix [Success, OverallHeader ''red'' (JInt 0)]
              (snd (render_results jane_extraction (JDict ?vr)))"
    unfolding jane_extraction_def using third by blast
  note fourth = inst [THEN conjunct2, THEN conjunct2, THEN conjunct2, THEN conjunct1,
                      rule_format, OF h2 h3]
  have c4: "render_results jane_extraction (JDict ?vr)
      = (Inr (),
         [Success, OverallHeader ''red'' (JInt 0), Summary (JStr (u ''Strong match'')), Rule,
          Subheader,
          FieldHeader (u ''name'') ''red'' (JInt 0), ValueLine (JStr (u ''Jane Doe'')), Rule,
          FieldHeader (u ''email'') ''red'' (JInt 0), ValueLine (JStr (u ''jane@example.com'')),
          Rule,
          FieldHeader (u ''skills'') ''red'' (JInt 0), Bullet (JStr (u ''Python'')), Rule,
          RawData jane_extraction (JDict ?vr)])"
    unfolding jane_extraction_def fourth
    by (simp add: show_value_def py_truthy_def show_item_def)
  have ok: "fst (render_results (JDict ?items) (JDict ?vr)) = Inr ()"
    using c4 unfolding jane_extraction_def by simp
  note sixth = inst [THEN conjunct2, THEN conjunct2, THEN conjunct2, THEN conjunct2,
                     THEN conjunct2, rule_format, OF h3 h4 ok]
  have c6: "sublist ?block (snd (render_results jane_extraction (JDict ?vr)))"
    unfolding jane_extraction_def using sixth unfolding sv by simp
  have g1: "map_of ?vr2 (u ''field_evaluations'') = Some (JDict ?fe2)"
    by simp
  have g2: "map_of ?fe2 (u ''email'') = None"
    by simp
  have g3: "fst (render_results jane_extraction jane_validation) = Inr ()"
    by (simp add: jane_presentation)
  have g3': "fst (render_results (JDict ?items) (JDict ?vr2)) = Inr ()"
    using g3 unfolding jane_extraction_def jane_validation_def .
  note inst2 = missing_evaluation_defaults_to_zero
    [where fe = ?fe2 and field = "u ''email''" and v = "JStr (u ''jane@example.com'')"
       and out = "[]" and vr = ?vr2 and items = ?items]
  note fifth = inst2 [THEN conjunct2, THEN conjunct2, THEN conjunct2, THEN conjunct2,
                      THEN conjunct1, rule_format, OF g1 g2 h4 g3']
  have c5: "sublist ?block (snd (render_results jane_extraction jane_validation))"
    unfolding jane_extraction_def jane_validation_def using fifth unfolding sv by simp
  show ?thesis
    by (intro conjI) (rule h1 c1 h2 h3 c2 c3 c4 h4 c6 g1 g2 g3 c5)+
qed


section \<open>Properties of serialisation and parsing\<close>

subsection \<open>Escapes, digits and whitespace\<close>

lemma hexval_hexdigit: "d < 16 \<Longrightarrow> hexval (hexdigit d) = Some d"
  by (simp add: hexdigit_def hexval_def)

lemma hex4_digits:
  assumes "n < (65536::nat)"
  shows "((n div 4096 * 16 + n div 256 mod 16) * 16 + n div 16 mod 16) * 16 + n mod 16 = n"
proof -
  have "n div 256 div 16 = n div (256 * 16)"
    by (rule div_mult2_eq [symmetric])
  then have b: "n div 256 = n div 4096 * 16 + n div 256 mod 16"
    using div_mult_mod_eq [of "n div 256" 16] by simp
  have "n div 16 div 16 = n div (16 * 16)"
    by (rule div_mult2_eq [symmetric])
  then have c: "n div 16 = n div 256 * 16 + n div 16 mod 16"
    using div_mult_mod_eq [of "n div 16" 16] by simp
  have d: "n = n div 16 * 16 + n mod 16"
    by simp
  have "((n div 4096 * 16 + n div 256 mod 16) * 16 + n div 16 mod 16) * 16 + n mod 16
          = (n div 256 * 16 + n div 16 mod 16) * 16 + n mod 16"
    by (simp only: b [symmetric])
  also have "\<dots> = n div 16 * 16 + n mod 16"
    by (simp only: c [symmetric])
  also have "\<dots> = n"
    by (simp only: d [symmetric])
  finally show ?thesis .
qed

lemma hex4_value_hexdigits:
  "a < 16 \<Longrightarrow> b < 16 \<Longrightarrow> c < 16 \<Longrightarrow> d < 16 \<Longrightarrow>
   hex4_value (hexdigit a) (hexdigit b) (hexdigit c) (hexdigit d)
     = Some (((a * 16 + b) * 16 + c) * 16 + d)"
  by (simp add: hex4_value_def hexval_hexdigit)

lemma decode_uXXXX_hex4:
  assumes "n < 65536"
  shows "decode_uXXXX (hex4 n @ rest) = Some n"
proof -
  have small: "n div 4096 mod 16 = n div 4096"
    using assms by simp
  have "decode_uXXXX (hex4 n @ rest)
          = hex4_value (hexdigit (n div 4096 mod 16)) (hexdigit (n div 256 mod 16))
              (hexdigit (n div 16 mod 16)) (hexdigit (n mod 16))"
    by (simp add: decode_uXXXX_def hex4_def)
  also have "\<dots> = Some ((((n div 4096 mod 16) * 16 + n div 256 mod 16) * 16 + n div 16 mod 16) * 16
                        + n mod 16)"
    by (rule hex4_value_hexdigits) simp_all
  also have "\<dots> = Some n"
    unfolding small using hex4_digits [OF assms] by (simp only:)
  finally show ?thesis .
qed

lemma digits_of_small: "n < 10 \<Longrightarrow> digits_of n = [char_of (48 + n)]"
  by (subst digits_of.simps) simp

lemma digits_of_large:
  "\<not> n < 10 \<Longrightarrow> digits_of n = digits_of (n div 10) @ [char_of (48 + n mod 10)]"
  by (subst digits_of.simps) simp

lemma is_digit_char_of: "k < 10 \<Longrightarrow> is_digit (char_of (48 + k :: nat))"
  by (simp add: is_digit_def)

lemma digits_value_snoc:
  "digits_value (ds @ [c]) = digits_value ds * 10 + (of_char c - 48)"
  by (simp add: digits_value_def)

lemma digits_value_digits_of: "digits_value (digits_of n) = n"
proof (induction n rule: digits_of.induct)
  case (1 n)
  show ?case
  proof (cases "n < 10")
    case True
    then show ?thesis
      by (simp add: digits_of_small digits_value_def)
  next
    case False
    have "digits_value (digits_of n) = digits_value (digits_of (n div 10)) * 10 + n mod 10"
      using False by (simp add: digits_of_large digits_value_snoc)
    also have "\<dots> = n div 10 * 10 + n mod 10"
      using "1.IH" [OF False] by (simp only:)
    finally show ?thesis
      by simp
  qed
qed

lemma digits_of_all_digits: "list_all is_digit (digits_of n)"
proof (induction n rule: digits_of.induct)
  case (1 n)
  show ?case
  proof (cases "n < 10")
    case True
    then show ?thesis
      by (simp add: digits_of_small is_digit_char_of)
  next
    case False
    then show ?thesis
      using "1.IH" [OF False] by (simp add: digits_of_large is_digit_char_of)
  qed
qed

lemma digits_of_nonempty: "digits_of n \<noteq> []"
  by (cases "n < 10") (simp_all add: digits_of_small digits_of_large)

lemma hd_digits_of_zero: "hd (digits_of n) = CHR ''0'' \<longleftrightarrow> n = 0"
proof (induction n rule: digits_of.induct)
  case (1 n)
  show ?case
  proof (cases "n < 10")
    case True
    have "(of_char (char_of (48 + n)) :: nat) = of_char (CHR ''0'') \<longleftrightarrow> n = 0"
      using True by simp
    then have "char_of (48 + n) = CHR ''0'' \<longleftrightarrow> n = 0"
      by (simp only: of_char_eq_iff)
    then show ?thesis
      using True by (simp add: digits_of_small)
  next
    case False
    have "hd (digits_of n) = hd (digits_of (n div 10))"
      using False digits_of_nonempty [of "n div 10"] by (simp add: digits_of_large)
    then show ?thesis
      using "1.IH" [OF False] False by simp
  qed
qed

lemma skip_ws_newline_indent: "skip_ws (newline_indent k @ s) = skip_ws s"
proof -
  have "dropWhile is_ws (replicate (2 * k) CHR '' '' @ s) = dropWhile is_ws s"
    by (rule dropWhile_append2) (simp add: is_ws_def)
  then show ?thesis
    by (simp add: skip_ws_def newline_indent_def is_ws_def)
qed

lemma skip_ws_id: "\<not> is_ws c \<Longrightarrow> skip_ws (c # s) = c # s"
  by (simp add: skip_ws_def)

lemma skip_ws_Nil: "skip_ws [] = []"
  by (simp add: skip_ws_def)

lemma update_fresh: "k \<notin> fst ` set al \<Longrightarrow> AList.update k v al = al @ [(k, v)]"
  by (induction al) auto

lemma py_dict_acc:
  "distinct (map fst (acc @ pairs)) \<Longrightarrow>
   foldl (\<lambda>d kv. AList.update (fst kv) (snd kv) d) acc pairs = acc @ pairs"
proof (induction pairs arbitrary: acc)
  case Nil
  show ?case by simp
next
  case (Cons kv pairs)
  have fresh: "fst kv \<notin> fst ` set acc"
    using Cons.prems by auto
  have "distinct (map fst ((acc @ [kv]) @ pairs))"
    using Cons.prems by simp
  from Cons.IH [OF this] show ?case
    by (simp add: update_fresh [OF fresh])
qed

lemma py_dict_distinct: "distinct (map fst pairs) \<Longrightarrow> py_dict pairs = pairs"
  using py_dict_acc [of "[]" pairs] by (simp add: py_dict_def)

subsection \<open>Strings\<close>

lemma scanstring_quote: "scanstring (dquote # cs) = Some ([], cs)"
  by simp

lemma scanstring_raw:
  "c \<noteq> dquote \<Longrightarrow> c \<noteq> bslash \<Longrightarrow> \<not> (of_char c :: nat) < 0x20 \<Longrightarrow>
   scanstring (c # cs) = cons_char (of_char c) (scanstring cs)"
  by simp

lemma scanstring_simple_escape:
  "esc \<noteq> CHR ''u'' \<Longrightarrow> unescape esc = Some ch \<Longrightarrow>
   scanstring (bslash # esc # r) = cons_char ch (scanstring r)"
  by simp

lemma scanstring_u_general:
  "scanstring (bslash # CHR ''u'' # r) =
     (case decode_uXXXX r of
        None \<Rightarrow> None
      | Some uni \<Rightarrow>
          if is_high_surrogate uni \<and> take 2 (drop 4 r) = [bslash, CHR ''u''] then
            (case decode_uXXXX (drop 6 r) of
               None \<Rightarrow> None
             | Some uni2 \<Rightarrow>
                 if is_low_surrogate uni2
                 then cons_char (join_surrogates uni uni2) (scanstring (drop 10 r))
                 else cons_char uni (scanstring (drop 4 r)))
          else cons_char uni (scanstring (drop 4 r)))"
  by simp

declare scanstring.simps [simp del]

lemma scanstring_u_lone:
  assumes "decode_uXXXX r = Some uni" and "is_high_surrogate uni \<Longrightarrow> lone_ok (drop 4 r)"
  shows "scanstring (bslash # CHR ''u'' # r) = cons_char uni (scanstring (drop 4 r))"
proof (cases "is_high_surrogate uni \<and> take 2 (drop 4 r) = [bslash, CHR ''u'']")
  case False
  show ?thesis
    unfolding scanstring_u_general assms(1) using False by (simp only: option.case if_False)
next
  case True
  then obtain uni2 where "decode_uXXXX (drop 2 (drop 4 r)) = Some uni2" "\<not> is_low_surrogate uni2"
    using assms(2) unfolding lone_ok_def by blast
  then show ?thesis
    unfolding scanstring_u_general assms(1) using True by simp
qed

lemma scanstring_u_pair:
  assumes "decode_uXXXX r = Some uni" and "is_high_surrogate uni"
    and "take 2 (drop 4 r) = [bslash, CHR ''u'']"
    and "decode_uXXXX (drop 6 r) = Some uni2" and "is_low_surrogate uni2"
  shows "scanstring (bslash # CHR ''u'' # r)
           = cons_char (join_surrogates uni uni2) (scanstring (drop 10 r))"
  unfolding scanstring_u_general assms(1) using assms(2-5) by simp

lemma length_hex4: "length (hex4 n) = 4"
  by (simp add: hex4_def)

lemma drop_hex4: "drop 4 (hex4 n @ t) = t"
  by (simp add: hex4_def)

lemma take2_hex4: "take 2 (drop 4 (hex4 a @ x # y # t)) = [x, y]"
  by (simp add: hex4_def)

lemma drop6_hex4: "drop 6 (hex4 a @ x # y # t) = t"
  by (simp add: hex4_def)

lemma drop10_hex4: "drop 10 (hex4 a @ x # y # hex4 b @ t) = t"
  by (simp add: hex4_def)

lemma char_of_eq_of_char: "n < 256 \<Longrightarrow> (char_of (n::nat) = c) = (n = of_char c)"
  by (metis char_of_char of_char_of mod_less)

lemma astral_units:
  assumes "65536 \<le> n" and "n < (1114112::nat)"
  shows "is_high_surrogate (55296 + (n - 65536) div 1024 mod 1024)"
    and "is_low_surrogate (56320 + (n - 65536) mod 1024)"
    and "\<not> is_low_surrogate (55296 + (n - 65536) div 1024 mod 1024)"
    and "join_surrogates (55296 + (n - 65536) div 1024 mod 1024) (56320 + (n - 65536) mod 1024) = n"
    and "55296 + (n - 65536) div 1024 mod 1024 < 65536"
    and "56320 + (n - 65536) mod 1024 < 65536"
proof -
  define m where "m = n - 65536"
  have m: "m < 1048576" "n = 65536 + m"
    using assms by (simp_all add: m_def)
  have small: "m div 1024 mod 1024 = m div 1024"
    using m(1) by simp
  have hi: "m div 1024 < 1024"
    using m(1) by simp
  have lo: "m mod 1024 < 1024"
    by simp
  have split: "m div 1024 * 1024 + m mod 1024 = m"
    by simp
  show "is_high_surrogate (55296 + (n - 65536) div 1024 mod 1024)"
    unfolding m_def [symmetric] small is_high_surrogate_def using hi by simp
  show "is_low_surrogate (56320 + (n - 65536) mod 1024)"
    unfolding m_def [symmetric] is_low_surrogate_def using lo by simp
  show "\<not> is_low_surrogate (55296 + (n - 65536) div 1024 mod 1024)"
    unfolding m_def [symmetric] small is_low_surrogate_def using hi by simp
  show "join_surrogates (55296 + (n - 65536) div 1024 mod 1024) (56320 + (n - 65536) mod 1024) = n"
    unfolding m_def [symmetric] small join_surrogates_def using split m(2) by simp
  show "55296 + (n - 65536) div 1024 mod 1024 < 65536"
    unfolding m_def [symmetric] small using hi by simp
  show "56320 + (n - 65536) mod 1024 < 65536"
    unfolding m_def [symmetric] using lo by simp
qed

text \<open>The shapes of an escaped character.\<close>

lemma escape_char_cases:
  assumes "n < 1114112"
  obtains (simple) esc where "escape_char n = [bslash, esc]" "esc \<noteq> CHR ''u''"
      "unescape esc = Some n"
    | (raw) "escape_char n = [char_of n]" "32 \<le> n" "n \<le> 126" "n \<noteq> 34" "n \<noteq> 92"
    | (bmp) "escape_char n = bslash # CHR ''u'' # hex4 n" "n < 65536"
    | (astral) "escape_char n =
          bslash # CHR ''u'' # hex4 (55296 + (n - 65536) div 1024 mod 1024)
            @ bslash # CHR ''u'' # hex4 (56320 + (n - 65536) mod 1024)" "65536 \<le> n"
proof -
  consider "n = 92" | "n = 34" | "n = 8" | "n = 12" | "n = 10" | "n = 13" | "n = 9"
    | "n \<noteq> 92" "n \<noteq> 34" "n \<noteq> 8" "n \<noteq> 12" "n \<noteq> 10" "n \<noteq> 13" "n \<noteq> 9"
    by blast
  then show thesis
  proof cases
    case 1
    then show ?thesis by (intro simple [of bslash]) (simp_all add: escape_char_def unescape_def)
  next
    case 2
    then show ?thesis by (intro simple [of dquote]) (simp_all add: escape_char_def unescape_def)
  next
    case 3
    then show ?thesis by (intro simple [of "CHR ''b''"]) (simp_all add: escape_char_def unescape_def)
  next
    case 4
    then show ?thesis by (intro simple [of "CHR ''f''"]) (simp_all add: escape_char_def unescape_def)
  next
    case 5
    then show ?thesis by (intro simple [of "CHR ''n''"]) (simp_all add: escape_char_def unescape_def)
  next
    case 6
    then show ?thesis by (intro simple [of "CHR ''r''"]) (simp_all add: escape_char_def unescape_def)
  next
    case 7
    then show ?thesis by (intro simple [of "CHR ''t''"]) (simp_all add: escape_char_def unescape_def)
  next
    case 8
    show ?thesis
    proof (cases "32 \<le> n \<and> n \<le> 126")
      case True
      then show ?thesis
        using 8 by (intro raw) (simp_all add: escape_char_def)
    next
      case notraw: False
      show ?thesis
      proof (cases "n < 65536")
        case True
        then show ?thesis
          using 8 notraw by (intro bmp) (simp_all add: escape_char_def)
      next
        case False
        then show ?thesis
          using 8 notraw by (intro astral) (simp_all add: escape_char_def Let_def)
      qed
    qed
  qed
qed

lemma scanstring_escape_char:
  assumes n: "n < 1114112" and lone: "is_high_surrogate n \<Longrightarrow> lone_ok t"
  shows "scanstring (escape_char n @ t) = cons_char n (scanstring t)"
  using n
proof (cases n rule: escape_char_cases)
  case (simple esc)
  then show ?thesis
    by (simp add: scanstring_simple_escape)
next
  case raw
  have c: "char_of n \<noteq> dquote" "char_of n \<noteq> bslash" "\<not> (of_char (char_of n :: char) :: nat) < 0x20"
    "(of_char (char_of n :: char) :: nat) = n"
    using raw(2-5) by (simp_all add: char_of_eq_of_char)
  show ?thesis
    unfolding raw(1) using scanstring_raw [OF c(1,2,3), of t] c(4) by simp
next
  case bmp
  have d: "decode_uXXXX (hex4 n @ t) = Some n"
    using bmp(2) by (rule decode_uXXXX_hex4)
  have "scanstring (bslash # CHR ''u'' # hex4 n @ t) = cons_char n (scanstring (drop 4 (hex4 n @ t)))"
    by (rule scanstring_u_lone [OF d]) (unfold drop_hex4, rule lone)
  then have "scanstring (bslash # CHR ''u'' # hex4 n @ t) = cons_char n (scanstring t)"
    unfolding drop_hex4 .
  then show ?thesis
    unfolding bmp(1) by simp
next
  case astral
  let ?hi = "55296 + (n - 65536) div 1024 mod 1024"
  let ?lo = "56320 + (n - 65536) mod 1024"
  let ?r = "hex4 ?hi @ bslash # CHR ''u'' # hex4 ?lo @ t"
  note units = astral_units [OF astral(2) n]
  have d1: "decode_uXXXX ?r = Some ?hi"
    using units(5) by (rule decode_uXXXX_hex4)
  have nxt: "take 2 (drop 4 ?r) = [bslash, CHR ''u'']"
    by (rule take2_hex4)
  have r6: "drop 6 ?r = hex4 ?lo @ t"
    by (rule drop6_hex4)
  have d2: "decode_uXXXX (drop 6 ?r) = Some ?lo"
    unfolding r6 using units(6) by (rule decode_uXXXX_hex4)
  have r10: "drop 10 ?r = t"
    by (rule drop10_hex4)
  have "scanstring (bslash # CHR ''u'' # ?r)
          = cons_char (join_surrogates ?hi ?lo) (scanstring (drop 10 ?r))"
    using d1 units(1) nxt d2 units(2) by (rule scanstring_u_pair)
  then show ?thesis
    unfolding astral(1) r10 units(4) by simp
qed

lemma lone_ok_quote: "lone_ok (dquote # rest)"
  by (simp add: lone_ok_def)

lemma lone_ok_escape_char:
  assumes n: "n < 1114112" and "\<not> is_low_surrogate n"
  shows "lone_ok (escape_char n @ t)"
  using n
proof (cases n rule: escape_char_cases)
  case (simple esc)
  then show ?thesis
    by (simp add: lone_ok_def)
next
  case raw
  have "char_of n \<noteq> bslash"
    using raw(2-5) by (simp add: char_of_eq_of_char)
  then show ?thesis
    unfolding raw(1) by (simp add: lone_ok_def)
next
  case bmp
  have "decode_uXXXX (hex4 n @ t) = Some n"
    using bmp(2) by (rule decode_uXXXX_hex4)
  then show ?thesis
    unfolding bmp(1) lone_ok_def using assms(2) by simp
next
  case astral
  let ?hi = "55296 + (n - 65536) div 1024 mod 1024"
  let ?lo = "56320 + (n - 65536) mod 1024"
  note units = astral_units [OF astral(2) n]
  have "decode_uXXXX (hex4 ?hi @ bslash # CHR ''u'' # hex4 ?lo @ t) = Some ?hi"
    using units(5) by (rule decode_uXXXX_hex4)
  then show ?thesis
    unfolding astral(1) lone_ok_def using units(3) by simp
qed

lemma scanstring_escaped:
  "wf_ustr s \<Longrightarrow> scanstring (concat (map escape_char s) @ dquote # rest) = Some (s, rest)"
proof (induction s)
  case Nil
  show ?case
    by (simp add: scanstring_quote)
next
  case (Cons x xs)
  let ?t = "concat (map escape_char xs) @ dquote # rest"
  have x: "x < 1114112"
    using Cons.prems by (simp add: wf_ustr_def)
  have xs: "wf_ustr xs"
    using Cons.prems by (cases xs) (simp_all add: wf_ustr_def)
  have lone: "lone_ok ?t" if hi: "is_high_surrogate x"
  proof (cases xs)
    case Nil
    then show ?thesis
      by (simp add: lone_ok_quote)
  next
    case (Cons y ys)
    have "y < 1114112" "\<not> is_low_surrogate y"
      using Cons.prems hi Cons by (simp_all add: wf_ustr_def)
    then have "lone_ok (escape_char y @ concat (map escape_char ys) @ dquote # rest)"
      by (rule lone_ok_escape_char)
    then show ?thesis
      using Cons by simp
  qed
  have "scanstring (escape_char x @ ?t) = cons_char x (scanstring ?t)"
    using x lone by (rule scanstring_escape_char)
  then show ?case
    using Cons.IH [OF xs] by (simp add: cons_char_def)
qed

lemma scanstring_encode_basestring_ascii:
  "wf_ustr s \<Longrightarrow>
   scanstring (tl (encode_basestring_ascii s) @ rest) = Some (s, rest)"
  using scanstring_escaped [of s rest] by (simp add: encode_basestring_ascii_def)

subsection \<open>Numbers and containers\<close>

lemma value_end_simps:
  "value_end []" "value_end (CHR '','' # s)" "value_end (newline_indent k @ s)"
  by (simp_all add: value_end_def newline_indent_def)

lemma value_end_not_number:
  assumes "value_end rest"
  shows "takeWhile is_digit rest = []" and "dropWhile is_digit rest = rest"
    and "\<not> float_tail rest"
proof -
  consider "rest = []" | cs where "rest = CHR '','' # cs" | cs where "rest = newline # cs"
    using assms by (cases rest) (auto simp: value_end_def)
  then have "takeWhile is_digit rest = [] \<and> dropWhile is_digit rest = rest \<and> \<not> float_tail rest"
    by cases (simp_all add: is_digit_def float_tail_def split: list.split)
  then show "takeWhile is_digit rest = []" and "dropWhile is_digit rest = rest"
    and "\<not> float_tail rest"
    by blast+
qed

lemma parse_digits_digits_of:
  assumes "value_end rest"
  shows "parse_digits neg (digits_of n @ rest)
           = Some (JInt (if neg then - int n else int n), rest)"
proof -
  obtain d ds where dds: "digits_of n = d # ds"
    using digits_of_nonempty [of n] by (cases "digits_of n") simp_all
  have d: "is_digit d" and ds: "\<And>x. x \<in> set ds \<Longrightarrow> is_digit x"
    using digits_of_all_digits [of n] dds by (simp_all add: list_all_iff)
  have val: "digits_value (d # ds) = n"
    using digits_value_digits_of [of n] dds by simp
  note e = value_end_not_number [OF assms]
  have tw: "takeWhile is_digit (ds @ rest) = ds"
    using takeWhile_append2 [of ds is_digit rest] ds e(1) by simp
  have dw: "dropWhile is_digit (ds @ rest) = rest"
    using dropWhile_append2 [of ds is_digit rest] ds e(2) by simp
  show ?thesis
  proof (cases "d = CHR ''0''")
    case True
    then have n0: "n = 0"
      using hd_digits_of_zero [of n] dds by simp
    then have nil: "ds = []"
      using dds by (simp add: digits_of_small)
    have v0: "digits_value [d] = 0"
      using val nil n0 by simp
    show ?thesis
      unfolding parse_digits_def dds nil using True d e(3) v0 n0 by simp
  next
    case False
    show ?thesis
      unfolding parse_digits_def dds using False d e(3) val tw dw by simp
  qed
qed

lemma number_start:
  assumes "c = CHR ''-'' \<or> is_digit c"
  shows "c \<noteq> dquote" "c \<noteq> CHR ''{''" "c \<noteq> CHR ''[''" "c \<noteq> CHR ''n''" "c \<noteq> CHR ''t''"
    "c \<noteq> CHR ''f''" "\<not> is_ws c" "c \<noteq> CHR '']''"
  using assms by (auto simp: is_digit_def is_ws_def)

lemma int_repr_first:
  obtains c cs where "int_repr i = c # cs" "c = CHR ''-'' \<or> is_digit c"
proof (cases "i < 0")
  case True
  then show ?thesis
    using that [of "CHR ''-''" "digits_of (nat (- i))"] by (simp add: int_repr_def)
next
  case False
  obtain d ds where dds: "digits_of (nat i) = d # ds"
    using digits_of_nonempty [of "nat i"] by (cases "digits_of (nat i)") simp_all
  have "is_digit d"
    using digits_of_all_digits [of "nat i"] dds by simp
  then show ?thesis
    using that [of d ds] False dds by (simp add: int_repr_def)
qed

lemma parse_number_int_repr:
  assumes "value_end rest"
  shows "parse_number (int_repr i @ rest) = Some (JInt i, rest)"
proof (cases "i < 0")
  case True
  have "parse_number (CHR ''-'' # digits_of (nat (- i)) @ rest)
          = parse_digits True (digits_of (nat (- i)) @ rest)"
    by (simp add: parse_number_def)
  then show ?thesis
    using True parse_digits_digits_of [OF assms, of True "nat (- i)"]
    by (simp add: int_repr_def)
next
  case False
  obtain d ds where dds: "digits_of (nat i) = d # ds"
    using digits_of_nonempty [of "nat i"] by (cases "digits_of (nat i)") simp_all
  have "is_digit d"
    using digits_of_all_digits [of "nat i"] dds by simp
  then have "d \<noteq> CHR ''-''"
    by (auto simp: is_digit_def)
  then have "parse_number (digits_of (nat i) @ rest)
          = parse_digits False (digits_of (nat i) @ rest)"
    by (simp add: parse_number_def dds)
  then show ?thesis
    using False parse_digits_digits_of [OF assms, of False "nat i"]
    by (simp add: int_repr_def)
qed

text \<open>One step of the parser, case by case.\<close>

lemma parse_value_string:
  "scanstring cs = Some (str, r) \<Longrightarrow> parse_value (Suc n) (dquote # cs) = Some (JStr str, r)"
  by simp

lemma parse_value_empty_dict: "parse_value (Suc n) (CHR ''{'' # CHR ''}'' # rest) = Some (JDict [], rest)"
  by (simp add: skip_ws_def is_ws_def)

lemma parse_value_dict:
  "skip_ws cs = dquote # ds \<Longrightarrow> parse_members n ds = Some (pairs, r) \<Longrightarrow>
   parse_value (Suc n) (CHR ''{'' # cs) = Some (JDict (py_dict pairs), r)"
  by simp

lemma parse_value_empty_list: "parse_value (Suc n) (CHR ''['' # CHR '']'' # rest) = Some (JList [], rest)"
  by (simp add: skip_ws_def is_ws_def)

lemma parse_value_list:
  "skip_ws cs = d # ds \<Longrightarrow> d \<noteq> CHR '']'' \<Longrightarrow> parse_elements n (d # ds) = Some (vs, r) \<Longrightarrow>
   parse_value (Suc n) (CHR ''['' # cs) = Some (JList vs, r)"
  by simp

lemma parse_value_null: "parse_value (Suc n) (''null'' @ rest) = Some (JNull, rest)"
  by simp

lemma parse_value_true: "parse_value (Suc n) (''true'' @ rest) = Some (JBool True, rest)"
  by simp

lemma parse_value_false: "parse_value (Suc n) (''false'' @ rest) = Some (JBool False, rest)"
  by simp

lemma parse_value_number:
  "parse_value (Suc n) (int_repr i @ rest) = parse_number (int_repr i @ rest)"
proof -
  obtain c cs where first: "int_repr i = c # cs" "c = CHR ''-'' \<or> is_digit c"
    by (rule int_repr_first)
  note number_start [OF first(2)]
  then show ?thesis
    unfolding first(1) by simp
qed

lemma parse_elements_last:
  "parse_value m s = Some (v, r) \<Longrightarrow> skip_ws r = CHR '']'' # ds \<Longrightarrow>
   parse_elements (Suc m) s = Some ([v], ds)"
  by simp

lemma parse_elements_more:
  "parse_value m s = Some (v, r) \<Longrightarrow> skip_ws r = CHR '','' # ds \<Longrightarrow>
   parse_elements m (skip_ws ds) = Some (vs, r') \<Longrightarrow>
   parse_elements (Suc m) s = Some (v # vs, r')"
  by simp

lemma parse_members_last:
  "scanstring s = Some (k, r) \<Longrightarrow> skip_ws r = CHR '':'' # cs \<Longrightarrow>
   parse_value m (skip_ws cs) = Some (v, r1) \<Longrightarrow> skip_ws r1 = CHR ''}'' # ds \<Longrightarrow>
   parse_members (Suc m) s = Some ([(k, v)], ds)"
  by simp

lemma parse_members_more:
  "scanstring s = Some (k, r) \<Longrightarrow> skip_ws r = CHR '':'' # cs \<Longrightarrow>
   parse_value m (skip_ws cs) = Some (v, r1) \<Longrightarrow> skip_ws r1 = CHR '','' # ds \<Longrightarrow>
   skip_ws ds = dquote # qs \<Longrightarrow> parse_members m qs = Some (pairs, r2) \<Longrightarrow>
   parse_members (Suc m) s = Some ((k, v) # pairs, r2)"
  by simp

declare parse_value.simps [simp del] parse_elements.simps [simp del]
  parse_members.simps [simp del]

text \<open>The first character of an encoded value.\<close>

lemma iterencode_first:
  obtains c cs where "iterencode lv v = c # cs" "\<not> is_ws c" "c \<noteq> CHR '']''"
proof (cases v)
  case JNull
  then show ?thesis
    using that [of "CHR ''n''" "''ull''"] by (simp add: is_ws_def)
next
  case (JBool b)
  then show ?thesis
    using that [of "CHR ''t''" "''rue''"] that [of "CHR ''f''" "''alse''"]
    by (cases b) (simp_all add: is_ws_def)
next
  case (JInt i)
  obtain c cs where first: "int_repr i = c # cs" "c = CHR ''-'' \<or> is_digit c"
    by (rule int_repr_first)
  note number_start(7,8) [OF first(2)]
  then show ?thesis
    using that [of c cs] JInt first(1) by simp
next
  case (JStr s)
  then show ?thesis
    using that [of dquote "concat (map escape_char s) @ [dquote]"]
    by (simp add: encode_basestring_ascii_def is_ws_def)
next
  case (JList xs)
  then show ?thesis
    using that [of "CHR ''[''" "tl (iterencode lv v)"] by (simp add: is_ws_def)
next
  case (JDict kvs)
  then show ?thesis
    using that [of "CHR ''{''" "tl (iterencode lv v)"] by (simp add: is_ws_def)
qed

lemma skip_ws_iterencode: "skip_ws (iterencode lv v @ s) = iterencode lv v @ s"
proof -
  obtain c cs where first: "iterencode lv v = c # cs" "\<not> is_ws c"
    by (rule iterencode_first)
  then show ?thesis
    by (simp add: skip_ws_def)
qed

lemma skip_ws_space: "skip_ws (CHR '' '' # s) = skip_ws s"
  by (simp add: skip_ws_def is_ws_def)

lemma fuel_needed_pos: "0 < fuel_needed v"
  by (cases v) simp_all

lemma join_chunks_Cons: "join_chunks sep (x # xs) = x @ concat (map (\<lambda>y. sep @ y) xs)"
  by (induction xs arbitrary: x) simp_all

text \<open>The items of a non-empty list, from the first item to the closing bracket.\<close>

lemma parse_elements_round_trip:
  "\<forall>x\<in>set (x0 # xs). \<forall>n rest. value_end rest \<longrightarrow> fuel_needed x \<le> n \<longrightarrow>
       parse_value n (iterencode lv x @ rest) = Some (x, rest) \<Longrightarrow>
   Suc (sum_list (map fuel_needed (x0 # xs))) \<le> n \<Longrightarrow>
   parse_elements n
     (iterencode lv x0
      @ concat (map (\<lambda>y. CHR '','' # newline_indent lv @ iterencode lv y) xs)
      @ newline_indent l' @ CHR '']'' # rest)
     = Some (x0 # xs, rest)"
proof (induction xs arbitrary: x0 n)
  case Nil
  obtain m where n: "n = Suc m" and m: "fuel_needed x0 \<le> m"
    using Nil.prems(2) by (cases n) simp_all
  have pv: "parse_value m (iterencode lv x0 @ newline_indent l' @ CHR '']'' # rest)
              = Some (x0, newline_indent l' @ CHR '']'' # rest)"
    using Nil.prems(1) m by (simp add: value_end_simps)
  have sk: "skip_ws (newline_indent l' @ CHR '']'' # rest) = CHR '']'' # rest"
    unfolding skip_ws_newline_indent by (rule skip_ws_id) (simp add: is_ws_def)
  show ?case
    unfolding n using parse_elements_last [OF pv sk] by simp
next
  case (Cons y ys)
  let ?tail = "iterencode lv y
      @ concat (map (\<lambda>y. CHR '','' # newline_indent lv @ iterencode lv y) ys)
      @ newline_indent l' @ CHR '']'' # rest"
  obtain m where n: "n = Suc m" and m: "fuel_needed x0 + sum_list (map fuel_needed (y # ys)) \<le> m"
    using Cons.prems(2) by (cases n) simp_all
  have m0: "fuel_needed x0 \<le> m"
    using m by simp
  have m1: "Suc (sum_list (map fuel_needed (y # ys))) \<le> m"
    using m fuel_needed_pos [of x0] by simp
  have pv: "parse_value m (iterencode lv x0 @ CHR '','' # newline_indent lv @ ?tail)
              = Some (x0, CHR '','' # newline_indent lv @ ?tail)"
    using Cons.prems(1) m0 by (simp add: value_end_simps)
  have sk: "skip_ws (CHR '','' # newline_indent lv @ ?tail) = CHR '','' # newline_indent lv @ ?tail"
    by (rule skip_ws_id) (simp add: is_ws_def)
  have sk2: "skip_ws (newline_indent lv @ ?tail) = ?tail"
    unfolding skip_ws_newline_indent by (rule skip_ws_iterencode)
  have hyp: "\<forall>x\<in>set (y # ys). \<forall>n rest. value_end rest \<longrightarrow> fuel_needed x \<le> n \<longrightarrow>
       parse_value n (iterencode lv x @ rest) = Some (x, rest)"
    using Cons.prems(1) by simp
  have rec: "parse_elements m (skip_ws (newline_indent lv @ ?tail)) = Some (y # ys, rest)"
    unfolding sk2 by (rule Cons.IH [OF hyp m1])
  show ?case
    unfolding n using parse_elements_more [OF pv sk rec] by simp
qed

text \<open>The members of a non-empty mapping, from after the first key's opening quote.\<close>

lemma parse_members_round_trip:
  "\<forall>kv\<in>set (kv0 # kvs). wf_ustr (fst kv) \<and>
       (\<forall>n rest. value_end rest \<longrightarrow> fuel_needed (snd kv) \<le> n \<longrightarrow>
          parse_value n (iterencode lv (snd kv) @ rest) = Some (snd kv, rest)) \<Longrightarrow>
   Suc (sum_list (map (\<lambda>kv. fuel_needed (snd kv)) (kv0 # kvs))) \<le> n \<Longrightarrow>
   parse_members n
     (concat (map escape_char (fst kv0)) @ dquote # CHR '':'' # CHR '' '' # iterencode lv (snd kv0)
      @ concat (map (\<lambda>kv. CHR '','' # newline_indent lv @ dquote # concat (map escape_char (fst kv))
                           @ dquote # CHR '':'' # CHR '' '' # iterencode lv (snd kv)) kvs)
      @ newline_indent l' @ CHR ''}'' # rest)
     = Some (kv0 # kvs, rest)"
proof (induction kvs arbitrary: kv0 n)
  case Nil
  let ?after = "newline_indent l' @ CHR ''}'' # rest"
  obtain m where n: "n = Suc m" and m: "fuel_needed (snd kv0) \<le> m"
    using Nil.prems(2) by (cases n) simp_all
  have key: "scanstring (concat (map escape_char (fst kv0))
               @ dquote # CHR '':'' # CHR '' '' # iterencode lv (snd kv0) @ ?after)
             = Some (fst kv0, CHR '':'' # CHR '' '' # iterencode lv (snd kv0) @ ?after)"
    using Nil.prems(1) by (intro scanstring_escaped) simp
  have colon: "skip_ws (CHR '':'' # CHR '' '' # iterencode lv (snd kv0) @ ?after)
                 = CHR '':'' # CHR '' '' # iterencode lv (snd kv0) @ ?after"
    by (rule skip_ws_id) (simp add: is_ws_def)
  have sp: "skip_ws (CHR '' '' # iterencode lv (snd kv0) @ ?after) = iterencode lv (snd kv0) @ ?after"
    unfolding skip_ws_space by (rule skip_ws_iterencode)
  have pv: "parse_value m (skip_ws (CHR '' '' # iterencode lv (snd kv0) @ ?after))
              = Some (snd kv0, ?after)"
    unfolding sp using Nil.prems(1) m by (simp add: value_end_simps)
  have sk: "skip_ws ?after = CHR ''}'' # rest"
    unfolding skip_ws_newline_indent by (rule skip_ws_id) (simp add: is_ws_def)
  show ?case
    unfolding n using parse_members_last [OF key colon pv sk] by simp
next
  case (Cons kv1 kvs)
  let ?tail = "concat (map escape_char (fst kv1)) @ dquote # CHR '':'' # CHR '' '' # iterencode lv (snd kv1)
      @ concat (map (\<lambda>kv. CHR '','' # newline_indent lv @ dquote # concat (map escape_char (fst kv))
                           @ dquote # CHR '':'' # CHR '' '' # iterencode lv (snd kv)) kvs)
      @ newline_indent l' @ CHR ''}'' # rest"
  let ?after = "CHR '','' # newline_indent lv @ dquote # ?tail"
  obtain m where n: "n = Suc m"
    and m: "fuel_needed (snd kv0) + sum_list (map (\<lambda>kv. fuel_needed (snd kv)) (kv1 # kvs)) \<le> m"
    using Cons.prems(2) by (cases n) simp_all
  have m0: "fuel_needed (snd kv0) \<le> m"
    using m by simp
  have m1: "Suc (sum_list (map (\<lambda>kv. fuel_needed (snd kv)) (kv1 # kvs))) \<le> m"
    using m fuel_needed_pos [of "snd kv0"] by simp
  have key: "scanstring (concat (map escape_char (fst kv0))
               @ dquote # CHR '':'' # CHR '' '' # iterencode lv (snd kv0) @ ?after)
             = Some (fst kv0, CHR '':'' # CHR '' '' # iterencode lv (snd kv0) @ ?after)"
    using Cons.prems(1) by (intro scanstring_escaped) simp
  have colon: "skip_ws (CHR '':'' # CHR '' '' # iterencode lv (snd kv0) @ ?after)
                 = CHR '':'' # CHR '' '' # iterencode lv (snd kv0) @ ?after"
    by (rule skip_ws_id) (simp add: is_ws_def)
  have sp: "skip_ws (CHR '' '' # iterencode lv (snd kv0) @ ?after) = iterencode lv (snd kv0) @ ?after"
    unfolding skip_ws_space by (rule skip_ws_iterencode)
  have pv: "parse_value m (skip_ws (CHR '' '' # iterencode lv (snd kv0) @ ?after))
              = Some (snd kv0, ?after)"
    unfolding sp using Cons.prems(1) m0 by (simp add: value_end_simps)
  have sk: "skip_ws ?after = CHR '','' # newline_indent lv @ dquote # ?tail"
    by (rule skip_ws_id) (simp add: is_ws_def)
  have sk2: "skip_ws (newline_indent lv @ dquote # ?tail) = dquote # ?tail"
    unfolding skip_ws_newline_indent by (rule skip_ws_id) (simp add: is_ws_def)
  have hyp: "\<forall>kv\<in>set (kv1 # kvs). wf_ustr (fst kv) \<and>
       (\<forall>n rest. value_end rest \<longrightarrow> fuel_needed (snd kv) \<le> n \<longrightarrow>
          parse_value n (iterencode lv (snd kv) @ rest) = Some (snd kv, rest))"
    using Cons.prems(1) by simp
  have rec: "parse_members m ?tail = Some (kv1 # kvs, rest)"
    by (rule Cons.IH [OF hyp m1])
  show ?case
    unfolding n using parse_members_more [OF key colon pv sk sk2 rec] by simp
qed

text \<open>The text of a non-empty container.\<close>

lemma iterencode_list:
  "iterencode lv (JList (x # xs)) @ rest =
     CHR ''['' # newline_indent (Suc lv)
       @ iterencode (Suc lv) x
       @ concat (map (\<lambda>y. CHR '','' # newline_indent (Suc lv) @ iterencode (Suc lv) y) xs)
       @ newline_indent lv @ CHR '']'' # rest"
  by (simp add: join_chunks_Cons comp_def)

lemma iterencode_dict:
  "iterencode lv (JDict (kv # kvs)) @ rest =
     CHR ''{'' # newline_indent (Suc lv)
       @ dquote # concat (map escape_char (fst kv)) @ dquote # CHR '':'' # CHR '' ''
           # iterencode (Suc lv) (snd kv)
       @ concat (map (\<lambda>kv. CHR '','' # newline_indent (Suc lv) @ dquote
                            # concat (map escape_char (fst kv))
                            @ dquote # CHR '':'' # CHR '' '' # iterencode (Suc lv) (snd kv)) kvs)
       @ newline_indent lv @ CHR ''}'' # rest"
  by (simp add: join_chunks_Cons comp_def encode_basestring_ascii_def)

lemma parse_value_round_trip:
  "wf_json v \<Longrightarrow> value_end rest \<Longrightarrow> fuel_needed v \<le> n \<Longrightarrow>
   parse_value n (iterencode lv v @ rest) = Some (v, rest)"
proof (induction v arbitrary: lv n rest)
  case JNull
  then obtain m where "n = Suc m"
    by (cases n) simp_all
  then show ?case
    using parse_value_null [of m rest] by simp
next
  case (JBool b)
  then obtain m where "n = Suc m"
    by (cases n) simp_all
  then show ?case
    using parse_value_true [of m rest] parse_value_false [of m rest] by (cases b) simp_all
next
  case (JInt i)
  then obtain m where "n = Suc m"
    by (cases n) simp_all
  then show ?case
    using parse_value_number [of m i rest] parse_number_int_repr [OF JInt.prems(2), of i] by simp
next
  case (JStr s)
  then obtain m where n: "n = Suc m"
    by (cases n) simp_all
  have "scanstring (concat (map escape_char s) @ dquote # rest) = Some (s, rest)"
    using JStr.prems(1) by (intro scanstring_escaped) simp
  then have "parse_value (Suc m) (dquote # concat (map escape_char s) @ dquote # rest)
               = Some (JStr s, rest)"
    by (rule parse_value_string)
  then show ?case
    unfolding n by (simp add: encode_basestring_ascii_def)
next
  case (JList xs)
  show ?case
  proof (cases xs)
    case Nil
    obtain m where "n = Suc m"
      using JList.prems(3) by (cases n) simp_all
    then show ?thesis
      using Nil parse_value_empty_list [of m rest] by simp
  next
    case (Cons x0 xs')
    let ?items = "iterencode (Suc lv) x0
       @ concat (map (\<lambda>y. CHR '','' # newline_indent (Suc lv) @ iterencode (Suc lv) y) xs')
       @ newline_indent lv @ CHR '']'' # rest"
    obtain m where n: "n = Suc m" and m: "Suc (sum_list (map fuel_needed (x0 # xs'))) \<le> m"
      using JList.prems(3) Cons by (cases n) simp_all
    have hyp: "\<forall>x\<in>set (x0 # xs'). \<forall>n rest. value_end rest \<longrightarrow> fuel_needed x \<le> n \<longrightarrow>
         parse_value n (iterencode (Suc lv) x @ rest) = Some (x, rest)"
    proof (intro ballI allI impI)
      fix x k r
      assume x: "x \<in> set (x0 # xs')" and r: "value_end r" and k: "fuel_needed x \<le> k"
      have "x \<in> set xs"
        using x Cons by simp
      moreover have "wf_json x"
        using JList.prems(1) \<open>x \<in> set xs\<close> by (simp add: list_all_iff)
      ultimately show "parse_value k (iterencode (Suc lv) x @ r) = Some (x, r)"
        using r k by (rule JList.IH)
    qed
    have el: "parse_elements m ?items = Some (x0 # xs', rest)"
      by (rule parse_elements_round_trip [OF hyp m])
    obtain c cs where first: "iterencode (Suc lv) x0 = c # cs" "\<not> is_ws c" "c \<noteq> CHR '']''"
      by (rule iterencode_first)
    obtain ds where items: "?items = c # ds"
      using first(1) by simp
    have sk: "skip_ws (newline_indent (Suc lv) @ ?items) = c # ds"
      unfolding skip_ws_newline_indent items using first(2) by (rule skip_ws_id)
    have "parse_value (Suc m) (CHR ''['' # newline_indent (Suc lv) @ ?items)
            = Some (JList (x0 # xs'), rest)"
      using sk first(3) el [unfolded items] by (rule parse_value_list)
    then show ?thesis
      unfolding n Cons iterencode_list .
  qed
next
  case (JDict kvs)
  show ?case
  proof (cases kvs)
    case Nil
    obtain m where "n = Suc m"
      using JDict.prems(3) by (cases n) simp_all
    then show ?thesis
      using Nil parse_value_empty_dict [of m rest] by simp
  next
    case (Cons kv0 kvs')
    let ?members = "concat (map escape_char (fst kv0)) @ dquote # CHR '':'' # CHR '' ''
           # iterencode (Suc lv) (snd kv0)
       @ concat (map (\<lambda>kv. CHR '','' # newline_indent (Suc lv) @ dquote
                            # concat (map escape_char (fst kv))
                            @ dquote # CHR '':'' # CHR '' '' # iterencode (Suc lv) (snd kv)) kvs')
       @ newline_indent lv @ CHR ''}'' # rest"
    obtain m where n: "n = Suc m"
      and m: "Suc (sum_list (map (\<lambda>kv. fuel_needed (snd kv)) (kv0 # kvs'))) \<le> m"
      using JDict.prems(3) Cons by (cases n) simp_all
    have hyp: "\<forall>kv\<in>set (kv0 # kvs'). wf_ustr (fst kv) \<and>
         (\<forall>n rest. value_end rest \<longrightarrow> fuel_needed (snd kv) \<le> n \<longrightarrow>
            parse_value n (iterencode (Suc lv) (snd kv) @ rest) = Some (snd kv, rest))"
    proof (intro ballI conjI allI impI)
      fix kv
      assume "kv \<in> set (kv0 # kvs')"
      then have kv: "kv \<in> set kvs"
        using Cons by simp
      then show "wf_ustr (fst kv)"
        using JDict.prems(1) by (simp add: list_all_iff)
      fix k r
      assume r: "value_end r" and k: "fuel_needed (snd kv) \<le> k"
      have wf: "wf_json (snd kv)"
        using JDict.prems(1) kv by (simp add: list_all_iff)
      have "snd kv \<in> Basic_BNFs.snds kv"
        by (cases kv) simp
      with kv show "parse_value k (iterencode (Suc lv) (snd kv) @ r) = Some (snd kv, r)"
        using wf r k by (rule JDict.IH)
    qed
    have mem: "parse_members m ?members = Some (kv0 # kvs', rest)"
      by (rule parse_members_round_trip [OF hyp m])
    have sk: "skip_ws (newline_indent (Suc lv) @ dquote # ?members) = dquote # ?members"
      unfolding skip_ws_newline_indent by (rule skip_ws_id) (simp add: is_ws_def)
    have "distinct (map fst kvs)"
      using JDict.prems(1) by simp
    then have same: "py_dict (kv0 # kvs') = kvs"
      unfolding Cons by (rule py_dict_distinct)
    have "parse_value (Suc m) (CHR ''{'' # newline_indent (Suc lv) @ dquote # ?members)
            = Some (JDict (py_dict (kv0 # kvs')), rest)"
      using sk mem by (rule parse_value_dict)
    then show ?thesis
      unfolding n same unfolding Cons iterencode_dict by simp
  qed
qed

text \<open>The text of a value is long enough to serve as fuel.\<close>

lemma length_join_chunks: "sum_list (map length xs) \<le> length (join_chunks sep xs)"
proof (cases xs)
  case Nil
  then show ?thesis by simp
next
  case (Cons x xs')
  have "sum_list (map length xs') \<le> length (concat (map (\<lambda>y. sep @ y) xs'))"
    by (induction xs') simp_all
  then show ?thesis
    unfolding Cons join_chunks_Cons by simp
qed

lemma fuel_needed_length: "fuel_needed v \<le> length (iterencode lv v)"
proof (induction v arbitrary: lv)
  case JNull
  show ?case by simp
next
  case (JBool b)
  show ?case by simp
next
  case (JInt i)
  obtain c cs where "int_repr i = c # cs"
    by (rule int_repr_first)
  then show ?case by simp
next
  case (JStr s)
  show ?case by (simp add: encode_basestring_ascii_def)
next
  case (JList xs)
  have "sum_list (map fuel_needed xs) \<le> sum_list (map length (map (iterencode (Suc lv)) xs))"
    unfolding map_map comp_def by (rule sum_list_mono) (rule JList.IH)
  also have "\<dots> \<le> length (join_chunks (CHR '','' # newline_indent (Suc lv))
                           (map (iterencode (Suc lv)) xs))"
    by (rule length_join_chunks)
  finally show ?case
    by simp
next
  case (JDict kvs)
  let ?f = "\<lambda>kv. encode_basestring_ascii (fst kv) @ '': '' @ iterencode (Suc lv) (snd kv)"
  have "sum_list (map (\<lambda>kv. fuel_needed (snd kv)) kvs) \<le> sum_list (map length (map ?f kvs))"
    unfolding map_map comp_def
  proof (rule sum_list_mono)
    fix kv
    assume kv: "kv \<in> set kvs"
    have "snd kv \<in> Basic_BNFs.snds kv"
      by (cases kv) simp
    with kv have "fuel_needed (snd kv) \<le> length (iterencode (Suc lv) (snd kv))"
      by (rule JDict.IH)
    then show "fuel_needed (snd kv) \<le> length (?f kv)"
      by simp
  qed
  also have "\<dots> \<le> length (join_chunks (CHR '','' # newline_indent (Suc lv)) (map ?f kvs))"
    by (rule length_join_chunks)
  finally show ?case
    by simp
qed

lemma json_loads_json_dumps:
  assumes "wf_json v"
  shows "json_loads (json_dumps v) = Some v"
proof -
  have sk: "skip_ws (iterencode 0 v) = iterencode 0 v"
    using skip_ws_iterencode [of 0 v "[]"] by simp
  have "fuel_needed v \<le> Suc (length (iterencode 0 v))"
    using fuel_needed_length [of v 0] by simp
  with assms have "parse_value (Suc (length (iterencode 0 v))) (iterencode 0 v @ []) = Some (v, [])"
    by (intro parse_value_round_trip) (simp_all add: value_end_simps)
  then show ?thesis
    by (simp add: json_loads_def json_dumps_def sk skip_ws_Nil)
qed

subsection \<open>The validation prompt\<close>

lemma wf_jane_extraction: "wf_json jane_extraction"
  by (simp add: jane_extraction_def wf_ustr_def is_high_surrogate_def)

text \<open>
  C2. When the extraction is a value that a JSON parser can hand over, the validation step
  calls the model with the formatted validation template; where the template holds the
  placeholder \<open>extracted_data\<close>, the prompt contains the text of
  \<open>json.dumps(extracted_data, indent=2)\<close> as one piece, and parsing that text gives the
  extraction back, equal to the original in every key and value.
\<close>

theorem validation_prompt_round_trip:
  assumes "wf_json extracted_data"
    and "ext_open_read w (trace s) ''validation_prompt.md'' = Inr t"
    and "''extracted_data'' \<in> set (template_fields t)"
    and "validation_prompt t fields_description extracted_data = Inr prompt"
  shows "validate_extracted_data w fields_description extracted_data s
           = call_llm w prompt True (log_event (ReadFile ''validation_prompt.md'') s)
         \<and> sublist (json_dumps extracted_data) prompt
         \<and> json_loads (json_dumps extracted_data) = Some extracted_data"
proof (intro conjI)
  show "validate_extracted_data w fields_description extracted_data s
           = call_llm w prompt True (log_event (ReadFile ''validation_prompt.md'') s)"
    unfolding validate_extracted_data_unfold assms(2) using assms(4) by simp
  show "sublist (json_dumps extracted_data) prompt"
    using str_format_fields [OF assms(4) [unfolded validation_prompt_def] assms(3)] by simp
  show "json_loads (json_dumps extracted_data) = Some extracted_data"
    using assms(1) by (rule json_loads_json_dumps)
qed

theorem validation_prompt_round_trip_witness:
  "wf_json jane_extraction
   \<and> ext_open_read validation_env (trace init_state) ''validation_prompt.md''
       = Inr validation_demo_template
   \<and> ''extracted_data'' \<in> set (template_fields validation_demo_template)
   \<and> validation_prompt validation_demo_template ''Name, Email, Skills'' jane_extraction
       = Inr (''Fields: Name, Email, Skills Data: '' @ json_dumps jane_extraction)
   \<and> validate_extracted_data validation_env ''Name, Email, Skills'' jane_extraction init_state
       = call_llm validation_env (''Fields: Name, Email, Skills Data: '' @ json_dumps jane_extraction)
           True (log_event (ReadFile ''validation_prompt.md'') init_state)
   \<and> sublist (json_dumps jane_extraction)
        (''Fields: Name, Email, Skills Data: '' @ json_dumps jane_extraction)
   \<and> json_loads (json_dumps jane_extraction) = Some jane_extraction"
proof -
  have h2: "ext_open_read validation_env (trace init_state) ''validation_prompt.md''
              = Inr validation_demo_template"
    by (simp add: validation_env_def demo_env_def)
  have h3: "''extracted_data'' \<in> set (template_fields validation_demo_template)"
    by (simp add: validation_demo_fields)
  note inst = validation_prompt_round_trip [OF wf_jane_extraction h2 h3 validation_demo_format]
  show ?thesis
    using wf_jane_extraction h2 h3 validation_demo_format [of jane_extraction] inst by blast
qed

lemma newline_indent_small:
  "newline_indent 0 = [newline]"
  "newline_indent (Suc 0) = newline # ''  ''"
  "newline_indent (Suc (Suc 0)) = newline # ''    ''"
  by (simp_all add: newline_indent_def numeral_eq_Suc)

text \<open>The text of the scenario's extraction, as it stands in the prompt.\<close>

lemma jane_extraction_text:
  "json_dumps jane_extraction =
     ''{'' @ newline # ''  '' @ dquote # ''name'' @ dquote # '': '' @ dquote # ''Jane Doe'' @ dquote # '',''
       @ newline # ''  '' @ dquote # ''email'' @ dquote # '': '' @ dquote # ''jane@example.com'' @ dquote # '',''
       @ newline # ''  '' @ dquote # ''skills'' @ dquote # '': ['' @ newline # ''    '' @ dquote # ''Python'' @ dquote
       # newline # ''  ]'' @ newline # ''}''"
  by (simp add: json_dumps_def jane_extraction_def encode_basestring_ascii_def escape_char_def
        newline_indent_small char_of_eq_of_char)

text \<open>
  The encoder writes a high surrogate followed by a low one as two escapes, and the decoder
  reads two such escapes as one character: such a string does not come back.
\<close>

lemma surrogate_pair_is_joined:
  "json_loads (json_dumps (JStr [0xD83D, 0xDE00])) = Some (JStr [0x1F600])"
  by (simp add: json_dumps_def json_loads_def encode_basestring_ascii_def escape_char_def
        hex4_def hexdigit_def skip_ws_def is_ws_def parse_value.simps scanstring.simps
        decode_uXXXX_def hex4_value_def hexval_def is_high_surrogate_def is_low_surrogate_def
        join_surrogates_def cons_char_def)


end
